theory Spec2Isabelle
  imports Main "HOL-Library.Word"
begin

section \<open>Shared vocabulary: byte strings, exceptions, log records\<close>

text \<open>
  The commands of \<^verbatim>\<open>pyethapp/app.py\<close> act on byte strings read from a file, on a
  structured logger and on the services of the application. A Python 2 \<^verbatim>\<open>str\<close> is a
  sequence of bytes.
\<close>

type_synonym byte = "8 word"
type_synonym bytes = "byte list"

text \<open>
  The exceptions that the modelled code raises, catches or lets escape. \<^verbatim>\<open>sys.exit(n)\<close>
  is not among them: it is the outcome \<open>Exit n\<close> below.
\<close>

datatype py_exn =
    DecodingError
  | DeserializationError
  | IndexError
  | KeyError
  | ValueError
  | StopIteration
  | AssertionError
  | Abort
  | OtherError

text \<open>How a command ends: it returns, it leaves through \<^verbatim>\<open>sys.exit\<close>, or an exception escapes.\<close>

datatype outcome = Returned | Exit int | Raised py_exn

text \<open>
  A log call \<^verbatim>\<open>log.<level>(message, key=value, ...)\<close>. A message built with
  \<^verbatim>\<open>'...{}...'.format(a, b)\<close> is kept as its format string together with the arguments
  that fill it, in order.
\<close>

datatype level = DEBUG | INFO | WARNING | FATAL

datatype arg = I int | S string

datatype log_entry =
  LogEntry (lvl: level) (msg: string) (fmt_args: "arg list") (fields: "(string \<times> arg) list")

section \<open>Import: decoded records and transient blocks\<close>

text \<open>
  What \<^verbatim>\<open>rlp.codec.consume_item\<close> returns: a byte string, or a list of items.
\<close>

datatype rlp_item = RStr bytes | RList "rlp_item list"

record block_header =
  hash :: bytes
  prevhash :: bytes
  number :: int

record transient_block =
  header :: block_header
  transaction_list :: rlp_item
  uncles :: rlp_item

text \<open>
  The collaborators of \<^verbatim>\<open>import_blocks\<close> that live outside \<^verbatim>\<open>app.py\<close> are parameters
  of the model:
  \<^item> \<open>consume_item data i\<close> is \<^verbatim>\<open>rlp.codec.consume_item(data, i)\<close>: the item that starts
    at offset \<open>i\<close> and the offset after it, or the exception it raises;
  \<^item> \<open>TransientBlock block_data\<close> is the constructor \<^verbatim>\<open>eth_protocol.TransientBlock\<close>;
  \<^item> \<open>head_after bs\<close> is the number of the chain's head once the chain service has worked
    through the blocks \<open>bs\<close> that were put on its queue.
\<close>

record import_env =
  consume_item :: "bytes \<Rightarrow> nat \<Rightarrow> py_exn + (rlp_item \<times> nat)"
  TransientBlock :: "rlp_item \<Rightarrow> py_exn + transient_block"
  head_after :: "transient_block list \<Rightarrow> int"

text \<open>
  The chain service as \<^verbatim>\<open>import_blocks\<close> sees it: \<^verbatim>\<open>chain.knows_block\<close>,
  \<^verbatim>\<open>chain.chain.head.number\<close>, and the blocks that \<^verbatim>\<open>add_block\<close> has put on
  \<^verbatim>\<open>chain.block_queue\<close>, oldest first. The consumer that takes them off the queue runs
  concurrently and is not part of the model.
\<close>

record chain_service =
  knows_block :: "bytes \<Rightarrow> bool"
  head_number :: int
  block_queue :: "transient_block list"

text \<open>What a run has written to the logger, oldest record first.\<close>

record logger =
  logged :: "log_entry list"

record import_state = logger +
  chain :: chain_service

definition add_block :: "transient_block \<Rightarrow> chain_service \<Rightarrow> chain_service" where
  "add_block b c = c\<lparr>block_queue := block_queue c @ [b]\<rparr>"

definition emit :: "log_entry \<Rightarrow> 'a logger_scheme \<Rightarrow> 'a logger_scheme" where
  "emit e st = st\<lparr>logged := logged st @ [e]\<rparr>"

text \<open>\<^verbatim>\<open>isinstance(block_data, list) and len(block_data) == 3\<close>\<close>

fun is_block_shape :: "rlp_item \<Rightarrow> bool" where
  "is_block_shape (RList xs) = (length xs = 3)"
| "is_block_shape (RStr s) = False"

subsection \<open>The generator \<^verbatim>\<open>blocks()\<close>\<close>

text \<open>
  The generator's only state is the offset \<open>i\<close>. One call of \<^verbatim>\<open>next\<close> runs the body of
  its \<^verbatim>\<open>while\<close> loop once, from \<open>i\<close> to the \<^verbatim>\<open>yield\<close>, and ends in one of four ways;
  \<open>GExit\<close> and \<open>GYield\<close> carry the log records written on the way.
  \<^item> \<open>GStop\<close>: \<^verbatim>\<open>i < len(data)\<close> is false, the generator is exhausted (StopIteration);
  \<^item> \<open>GExit\<close>: \<^verbatim>\<open>sys.exit(1)\<close> after a \<^verbatim>\<open>DecodingError\<close>;
  \<^item> \<open>GRaise\<close>: an exception that no \<^verbatim>\<open>except\<close> clause of the generator catches;
  \<^item> \<open>GYield v j\<close>: the value \<open>v\<close> is yielded (\<open>None\<close> is Python's \<^verbatim>\<open>None\<close>) and the
    generator resumes at \<open>i = next_i = j\<close>.
\<close>

datatype gen_step =
    GStop
  | GExit int "log_entry list"
  | GRaise py_exn
  | GYield "transient_block option" nat "log_entry list"

definition blocks_next :: "import_env \<Rightarrow> bytes \<Rightarrow> nat \<Rightarrow> gen_step" where
  "blocks_next env data i =
    (if i < length data then
       (case consume_item env data i of
          Inl e \<Rightarrow>
            (if e = DecodingError
             then GExit 1 [LogEntry FATAL ''invalid RLP encoding'' [] [(''byte_index'', I (int i))]]
             else GRaise e)
        | Inr (block_data, next_i) \<Rightarrow>
            (case (if \<not> is_block_shape block_data then Inl DeserializationError
                   else TransientBlock env block_data) of
               Inl e \<Rightarrow>
                 (if e = IndexError \<or> e = DeserializationError
                  then GYield None next_i
                         [LogEntry WARNING ''not a valid block'' [] [(''byte_index'', I (int i))]]
                  else GRaise e)
             | Inr b \<Rightarrow> GYield (Some b) next_i []))
     else GStop)"

subsection \<open>The driver \<^verbatim>\<open>import_blocks\<close>\<close>

text \<open>
  The \<^verbatim>\<open>for n, block in enumerate(blocks())\<close> loop, entered with the generator at offset
  \<open>i\<close> and the counter at \<open>n\<close>. Nothing in \<^verbatim>\<open>app.py\<close> makes \<^verbatim>\<open>next_i\<close> larger than
  \<open>i\<close>, so the loop is a partial function: \<open>None\<close> stands for a run that never ends.
\<close>

partial_function (option) import_loop ::
  "import_env \<Rightarrow> bytes \<Rightarrow> nat \<Rightarrow> nat \<Rightarrow> import_state \<Rightarrow> (outcome \<times> import_state) option"
where
  "import_loop env data i n st =
    (case blocks_next env data i of
       GStop \<Rightarrow> Some (Returned, st)
     | GExit c es \<Rightarrow> Some (Exit c, st\<lparr>logged := logged st @ es\<rparr>)
     | GRaise e \<Rightarrow> Some (Raised e, st)
     | GYield None j es \<Rightarrow>
         import_loop env data j (n + 1)
           (emit (LogEntry WARNING ''skipping block'' [] [(''number_in_file'', I (int n))])
              (st\<lparr>logged := logged st @ es\<rparr>))
     | GYield (Some block) j es \<Rightarrow>
         import_loop env data j (n + 1)
           ((emit (LogEntry DEBUG ''adding block to queue'' []
                    [(''number_in_file'', I (int n)),
                     (''number_in_chain'', I (number (header block)))])
              (st\<lparr>logged := logged st @ es\<rparr>))
            \<lparr>chain := add_block block (chain st)\<rparr>))"

declare import_loop.simps [code]

text \<open>
  \<^verbatim>\<open>import_blocks\<close> from the assertion on the queue (line 312) to the last log call. The
  chain service \<open>c\<close> is the one just registered with the application. The wait for the
  queue to drain is the consumer's business; what the command reports at the end is
  \<open>head_after\<close> of the blocks it has enqueued.
\<close>

definition import_blocks ::
  "import_env \<Rightarrow> chain_service \<Rightarrow> bytes \<Rightarrow> (outcome \<times> import_state) option"
where
  "import_blocks env c data =
    (if block_queue c \<noteq> [] then Some (Raised AssertionError, \<lparr>logged = [], chain = c\<rparr>)
     else
       let st = emit (LogEntry INFO ''importing blocks'' [] []) \<lparr>logged = [], chain = c\<rparr> in
       (case blocks_next env data 0 of
          GStop \<Rightarrow> Some (Raised StopIteration, st)
        | GExit code es \<Rightarrow> Some (Exit code, st\<lparr>logged := logged st @ es\<rparr>)
        | GRaise e \<Rightarrow> Some (Raised e, st)
        | GYield None j es \<Rightarrow>
            Some (Exit 1, emit (LogEntry FATAL ''first block invalid'' [] [])
                            (st\<lparr>logged := logged st @ es\<rparr>))
        | GYield (Some first_block) j es \<Rightarrow>
            (if \<not> (knows_block c (hash (header first_block)) \<or>
                    knows_block c (prevhash (header first_block)))
             then Some (Exit 1,
                    emit (LogEntry FATAL ''unlinked chains'' []
                           [(''newest_known_block'', I (head_number c)),
                            (''first_unknown_block'', I (number (header first_block)))])
                      (st\<lparr>logged := logged st @ es\<rparr>))
             else
               (case import_loop env data 0 0 (st\<lparr>logged := logged st @ es\<rparr>) of
                  None \<Rightarrow> None
                | Some (Returned, st') \<Rightarrow>
                    Some (Returned,
                      emit (LogEntry INFO ''import finished'' []
                             [(''head_number'', I (head_after env (block_queue (chain st'))))])
                        st')
                | Some (Exit code, st') \<Rightarrow> Some (Exit code, st')
                | Some (Raised e, st') \<Rightarrow> Some (Raised e, st')))))"

subsection \<open>Buffers as sequences of records\<close>

text \<open>
  \<open>records env data i rs k\<close>: starting at offset \<open>i\<close>, the decoder reads the records \<open>rs\<close>
  one after the other, each inside the buffer, and arrives at offset \<open>k\<close>. A buffer is a
  sequence of records when the walk from \<open>0\<close> arrives at its end.
\<close>

inductive records :: "import_env \<Rightarrow> bytes \<Rightarrow> nat \<Rightarrow> rlp_item list \<Rightarrow> nat \<Rightarrow> bool"
  for env :: import_env and data :: bytes
where
  records_Nil: "records env data i [] i"
| records_Cons:
    "i < length data \<Longrightarrow> consume_item env data i = Inr (r, j) \<Longrightarrow> records env data j rs k
      \<Longrightarrow> records env data i (r # rs) k"

code_pred (modes: i \<Rightarrow> i \<Rightarrow> i \<Rightarrow> i \<Rightarrow> i \<Rightarrow> bool) records .

text \<open>
  The body of the generator's second \<^verbatim>\<open>try\<close> statement on one record, and the records
  on which it raises nothing but what the \<^verbatim>\<open>except\<close> clause catches.
\<close>

definition adapt :: "import_env \<Rightarrow> rlp_item \<Rightarrow> py_exn + transient_block" where
  "adapt env block_data =
    (if \<not> is_block_shape block_data then Inl DeserializationError
     else TransientBlock env block_data)"

definition caught :: "import_env \<Rightarrow> rlp_item \<Rightarrow> bool" where
  "caught env r =
    (case adapt env r of Inr b \<Rightarrow> True | Inl e \<Rightarrow> e = IndexError \<or> e = DeserializationError)"

definition skip_warning :: "nat \<Rightarrow> log_entry" where
  "skip_warning n = LogEntry WARNING ''skipping block'' [] [(''number_in_file'', I (int n))]"

text \<open>
  What the scan makes of a list of records, numbered from \<open>n\<close>: the blocks it hands to
  the chain service, and the positions it skips.
\<close>

fun blocks_of :: "import_env \<Rightarrow> rlp_item list \<Rightarrow> transient_block list" where
  "blocks_of env [] = []"
| "blocks_of env (r # rs) =
    (case adapt env r of Inr b \<Rightarrow> b # blocks_of env rs | Inl e \<Rightarrow> blocks_of env rs)"

fun skipped :: "import_env \<Rightarrow> nat \<Rightarrow> rlp_item list \<Rightarrow> nat list" where
  "skipped env n [] = []"
| "skipped env n (r # rs) =
    (case adapt env r of Inr b \<Rightarrow> skipped env (Suc n) rs | Inl e \<Rightarrow> n # skipped env (Suc n) rs)"

definition is_skip_warning :: "log_entry \<Rightarrow> bool" where
  "is_skip_warning e = (lvl e = WARNING \<and> msg e = ''skipping block'')"

text \<open>
  Vocabulary for the statements about the scan.
  \<^item> \<open>accepted env x\<close>: the adapter makes a block of the record \<open>x\<close>, which then is a list
    of three elements on which the constructor has raised nothing;
  \<^item> \<open>scanned env rs\<close>: the records the scan gets through, that is all of \<open>rs\<close> up to the
    first record on which the constructor raises what the generator does not catch;
  \<^item> \<open>decode_fatal k\<close>: the log record that reports a decoding failure at offset \<open>k\<close>;
  \<^item> \<open>reaches env c rs\<close>: a run whose buffer starts with the records \<open>rs\<close> comes to decode
    the record after them. Either there is none before it, or the first of them is made
    a block that is linked to the chain \<open>c\<close> and the others are enqueued or skipped.
\<close>

definition accepted :: "import_env \<Rightarrow> rlp_item \<Rightarrow> bool" where
  "accepted env x = (case adapt env x of Inr b \<Rightarrow> True | Inl e \<Rightarrow> False)"

definition scanned :: "import_env \<Rightarrow> rlp_item list \<Rightarrow> rlp_item list" where
  "scanned env rs = takeWhile (caught env) rs"

definition is_fatal :: "log_entry \<Rightarrow> bool" where
  "is_fatal e = (lvl e = FATAL)"

definition decode_fatal :: "nat \<Rightarrow> log_entry" where
  "decode_fatal k = LogEntry FATAL ''invalid RLP encoding'' [] [(''byte_index'', I (int k))]"

definition reaches :: "import_env \<Rightarrow> chain_service \<Rightarrow> rlp_item list \<Rightarrow> bool" where
  "reaches env c rs =
    (case rs of
       [] \<Rightarrow> True
     | r # rest \<Rightarrow>
         (case adapt env r of
            Inr b \<Rightarrow>
              (knows_block c (hash (header b)) \<or> knows_block c (prevhash (header b))) \<and>
              list_all (caught env) rest
          | Inl e \<Rightarrow> False))"

section \<open>Export\<close>

text \<open>
  The services \<^verbatim>\<open>export_blocks\<close> reads: the head's number, the chain index
  (\<^verbatim>\<open>index.get_block_by_number\<close>) and the database (\<^verbatim>\<open>db.get\<close>). Both lookups may raise.
\<close>

record export_env =
  chain_head_number :: int
  get_block_by_number :: "int \<Rightarrow> py_exn + bytes"
  db_get :: "bytes \<Rightarrow> py_exn + bytes"

text \<open>
  \<open>written\<close> holds the arguments of the calls \<^verbatim>\<open>file.write\<close>, in order. The file is opened
  in mode \<^verbatim>\<open>'ab'\<close>: its content is what it held before, followed by these byte strings.
\<close>

record export_state = logger +
  written :: "bytes list"

text \<open>The body of \<^verbatim>\<open>for n in xrange(from_, to + 1)\<close>, over the numbers still to come.\<close>

fun export_loop :: "export_env \<Rightarrow> int \<Rightarrow> int \<Rightarrow> int list \<Rightarrow> export_state \<Rightarrow> outcome \<times> export_state"
where
  "export_loop env from' to [] st = (Returned, st)"
| "export_loop env from' to (n # ns) st =
    (let st1 = emit (LogEntry DEBUG ''Exporting block {}'' [I n] []) st;
         st2 = (if (n - from') mod 50000 = 0
                then emit (LogEntry INFO ''Exporting block {} to {}''
                             [I n, I (min (n + 50000) to)] []) st1
                else st1)
     in (case get_block_by_number env n of
           Inl e \<Rightarrow> (Raised e, st2)
         | Inr block_hash \<Rightarrow>
             (case db_get env block_hash of
                Inl e \<Rightarrow> (Raised e, st2)
              | Inr block_rlp \<Rightarrow>
                  export_loop env from' to ns (st2\<lparr>written := written st2 @ [block_rlp]\<rparr>))))"

definition negative_msg :: string where
  "negative_msg = ''block numbers must not be negative''"

definition order_msg :: string where
  \<open>order_msg = ''"to" block must be newer than "from" block''\<close>

definition unknown_msg :: string where
  \<open>unknown_msg = ''"to" block not known (current head: {})''\<close>

definition export_blocks :: "export_env \<Rightarrow> int option \<Rightarrow> int option \<Rightarrow> outcome \<times> export_state"
where
  "export_blocks env from_opt to_opt =
    (let st = \<lparr>logged = [], written = []\<rparr>;
         from' = (case from_opt of None \<Rightarrow> 0 | Some f \<Rightarrow> f);
         head_no = chain_head_number env;
         to = (case to_opt of None \<Rightarrow> head_no | Some t \<Rightarrow> t)
     in if from' < 0 then (Exit 1, emit (LogEntry FATAL negative_msg [] []) st)
        else if to < from' then (Exit 1, emit (LogEntry FATAL order_msg [] []) st)
        else if to > head_no then (Exit 1, emit (LogEntry FATAL unknown_msg [I head_no] []) st)
        else
          (case export_loop env from' to [from'..to]
                  (emit (LogEntry INFO ''Starting export'' [] []) st) of
             (Returned, st') \<Rightarrow> (Returned, emit (LogEntry INFO ''Export complete'' [] []) st')
           | (Exit code, st') \<Rightarrow> (Exit code, st')
           | (Raised e, st') \<Rightarrow> (Raised e, st')))"

text \<open>Reading block \<open>n\<close> as the loop does: the index, then the database.\<close>

definition fetch :: "export_env \<Rightarrow> int \<Rightarrow> py_exn + bytes" where
  "fetch env n =
    (case get_block_by_number env n of Inl e \<Rightarrow> Inl e | Inr block_hash \<Rightarrow> db_get env block_hash)"

definition progress_report :: "int \<Rightarrow> int \<Rightarrow> log_entry" where
  "progress_report n m = LogEntry INFO ''Exporting block {} to {}'' [I n, I m] []"

definition is_progress_report :: "log_entry \<Rightarrow> bool" where
  "is_progress_report e = (lvl e = INFO \<and> msg e = ''Exporting block {} to {}'')"

section \<open>Unlocking accounts\<close>

text \<open>
  An account object: whether it is locked, and the password that opens its keystore.
\<close>

record account =
  keystore_password :: string
  locked :: bool

text \<open>
  Modelled from the spec: \<^verbatim>\<open>Account.unlock\<close> of \<^verbatim>\<open>accounts.py\<close>, which is not among the
  sources. The spec gives it as \<^verbatim>\<open>account.unlock(password) -> ()\<close>, failing on a wrong
  password, and \<^verbatim>\<open>unlock_accounts\<close> catches \<^verbatim>\<open>ValueError\<close> around it; after a successful
  unlock the account's locked flag is false.
\<close>

definition unlock :: "account \<Rightarrow> string \<Rightarrow> py_exn + account" where
  "unlock a pw = (if pw = keystore_password a then Inr (a\<lparr>locked := False\<rparr>) else Inl ValueError)"

text \<open>
  The text of a call of \<^verbatim>\<open>click.prompt\<close>: the format string, the value that was spliced
  into it for \<^verbatim>\<open>max_attempts_str\<close>, and the keyword arguments of \<^verbatim>\<open>format\<close>.
\<close>

datatype prompt = Prompt (fmt: string) (spliced: arg) (kwargs: "(string \<times> arg) list")

text \<open>
  The state of a run of \<^verbatim>\<open>unlock_accounts\<close>. Account objects are shared: two identifiers
  may resolve to the same object, so they live in a store, addressed by numbers.
  \<^item> \<open>accounts\<close>: the store;
  \<^item> \<open>attempts\<close>: the calls \<^verbatim>\<open>account.unlock(pw)\<close> made so far, as (address, password);
  \<^item> \<open>prompts\<close>: the prompts shown so far;
  \<^item> \<open>inputs\<close>: what the user is still going to type, one entry per prompt.
\<close>

record unlock_state = logger +
  accounts :: "nat \<Rightarrow> account"
  attempts :: "(nat \<times> string) list"
  prompts :: "prompt list"
  inputs :: "string list"

text \<open>
  \<^verbatim>\<open>click.prompt(text, hide_input=True, default='', show_default=False)\<close>: the prompt is
  shown and the next line of input is returned; at the end of the input click raises
  \<^verbatim>\<open>Abort\<close>.
\<close>

definition click_prompt :: "prompt \<Rightarrow> unlock_state \<Rightarrow> (py_exn + string) \<times> unlock_state" where
  "click_prompt p st =
    (case inputs st of
       [] \<Rightarrow> (Inl Abort, st\<lparr>prompts := prompts st @ [p]\<rparr>)
     | x # xs \<Rightarrow> (Inr x, st\<lparr>prompts := prompts st @ [p], inputs := xs\<rparr>))"

text \<open>\<^verbatim>\<open>account.unlock(pw)\<close> on the object at address \<open>a\<close>; \<open>None\<close> is the normal return.\<close>

definition account_unlock :: "nat \<Rightarrow> string \<Rightarrow> unlock_state \<Rightarrow> py_exn option \<times> unlock_state" where
  "account_unlock a pw st =
    (let st1 = st\<lparr>attempts := attempts st @ [(a, pw)]\<rparr> in
     case unlock (accounts st a) pw of
       Inl e \<Rightarrow> (Some e, st1)
     | Inr acc \<Rightarrow> (None, st1\<lparr>accounts := (accounts st)(a := acc)\<rparr>))"

text \<open>
  The first loop: every identifier is resolved with \<^verbatim>\<open>account_service.find\<close>, here a
  partial map from identifiers to addresses whose \<open>None\<close> is the \<^verbatim>\<open>KeyError\<close>. The result
  is the list of accounts, or the identifier that was not found.
\<close>

fun resolve :: "(string \<rightharpoonup> nat) \<Rightarrow> string list \<Rightarrow> nat list \<Rightarrow> string + nat list" where
  "resolve find_account [] accs = Inr accs"
| "resolve find_account (account_id # ids) accs =
    (case find_account account_id of
       None \<Rightarrow> Inl account_id
     | Some account \<Rightarrow> resolve find_account ids (accs @ [account]))"

text \<open>The loop of the branch \<^verbatim>\<open>password is not None\<close>.\<close>

fun unlock_with_password :: "string \<Rightarrow> (string \<times> nat) list \<Rightarrow> unlock_state \<Rightarrow> outcome \<times> unlock_state"
where
  "unlock_with_password pw [] st = (Returned, st)"
| "unlock_with_password pw ((identifier, a) # rest) st =
    (case account_unlock a pw st of
       (None, st1) \<Rightarrow> unlock_with_password pw rest st1
     | (Some e, st1) \<Rightarrow>
         (if e = ValueError
          then unlock_with_password pw rest
                 (emit (LogEntry FATAL ''Could not unlock account with password from file'' []
                          [(''account_id'', S identifier)]) st1)
          else (Raised e, st1)))"

text \<open>
  \<^verbatim>\<open>max_attempts and attempt > max_attempts\<close>, and \<^verbatim>\<open>str(max_attempts) if max_attempts else 'oo'\<close>:
  as truth values, \<^verbatim>\<open>None\<close> and \<^verbatim>\<open>0\<close> are false.
\<close>

fun over_budget :: "int option \<Rightarrow> int \<Rightarrow> bool" where
  "over_budget None attempt = False"
| "over_budget (Some m) attempt = (m \<noteq> 0 \<and> attempt > m)"

fun max_attempts_str :: "int option \<Rightarrow> arg" where
  "max_attempts_str None = S ''oo''"
| "max_attempts_str (Some m) = (if m \<noteq> 0 then I m else S ''oo'')"

definition first_attempt_fmt :: string where
  "first_attempt_fmt = ''Password for account {id} (attempt {attempt}/{})''"

definition further_attempts_fmt :: string where
  "further_attempts_fmt = ''Wrong password. Please try again (attempt {attempt}/{})''"

text \<open>
  The \<^verbatim>\<open>while True\<close> loop for one account, entered with the counter \<open>attempt\<close> and the
  password \<open>pw\<close> just typed. Every further round takes one line of input.
\<close>

function unlock_loop ::
  "int option \<Rightarrow> string \<Rightarrow> nat \<Rightarrow> int \<Rightarrow> string \<Rightarrow> unlock_state \<Rightarrow> outcome \<times> unlock_state"
where
  "unlock_loop max_attempts identifier a attempt pw st =
    (case account_unlock a pw st of
       (None, st1) \<Rightarrow> (Returned, st1)
     | (Some e, st1) \<Rightarrow>
         (if e \<noteq> ValueError then (Raised e, st1)
          else if over_budget max_attempts (attempt + 1)
          then (Exit 1,
                 emit (LogEntry FATAL ''Too many unlock attempts'' []
                         [(''attempts'', I (attempt + 1)), (''account_id'', S identifier)]) st1)
          else
            (case click_prompt
                    (Prompt further_attempts_fmt (max_attempts_str max_attempts)
                       [(''attempt'', I (attempt + 1))]) st1 of
               (Inl e', st2) \<Rightarrow> (Raised e', st2)
             | (Inr pw', st2) \<Rightarrow>
                 unlock_loop max_attempts identifier a (attempt + 1) pw' st2)))"
  by pat_completeness auto
termination
  by (relation "measure (\<lambda>(m, i, a, n, pw, st). length (inputs st))")
     (auto simp: account_unlock_def click_prompt_def Let_def split: sum.splits list.splits)

declare unlock_loop.simps [simp del]

text \<open>The loop of the interactive branch, one account after the other.\<close>

fun unlock_interactive :: "int option \<Rightarrow> (string \<times> nat) list \<Rightarrow> unlock_state \<Rightarrow> outcome \<times> unlock_state"
where
  "unlock_interactive max_attempts [] st = (Returned, st)"
| "unlock_interactive max_attempts ((identifier, a) # rest) st =
    (case click_prompt
            (Prompt first_attempt_fmt (max_attempts_str max_attempts)
               [(''id'', S identifier), (''attempt'', I 1)]) st of
       (Inl e, st1) \<Rightarrow> (Raised e, st1)
     | (Inr pw, st1) \<Rightarrow>
         (case unlock_loop max_attempts identifier a 1 pw st1 of
            (Returned, st2) \<Rightarrow>
              (if locked (accounts st2 a) then (Raised AssertionError, st2)
               else unlock_interactive max_attempts rest st2)
          | (Exit code, st2) \<Rightarrow> (Exit code, st2)
          | (Raised e, st2) \<Rightarrow> (Raised e, st2)))"

definition unlock_accounts ::
  "string list \<Rightarrow> (string \<rightharpoonup> nat) \<Rightarrow> int option \<Rightarrow> string option \<Rightarrow> unlock_state
    \<Rightarrow> outcome \<times> unlock_state"
where
  "unlock_accounts account_ids find_account max_attempts pw_opt st =
    (case resolve find_account account_ids [] of
       Inl account_id \<Rightarrow>
         (Exit 1,
           emit (LogEntry FATAL ''could not find account'' [] [(''identifier'', S account_id)]) st)
     | Inr accs \<Rightarrow>
         (case pw_opt of
            Some pw \<Rightarrow> unlock_with_password pw (zip account_ids accs) st
          | None \<Rightarrow> unlock_interactive max_attempts (zip account_ids accs) st))"

section \<open>Concrete collaborators for the examples\<close>

text \<open>
  The examples below need a decoder and a block constructor to run on. \<open>demo_consume_item\<close>
  reads the short forms of the recursive length-prefix encoding: a byte below \<open>0x80\<close> is
  a one-byte string, \<open>0x80 + n\<close> starts a string of \<open>n \<le> 55\<close> bytes and \<open>0xc0 + n\<close> a list
  whose items take \<open>n \<le> 55\<close> bytes; everything else, and a length that runs past the end
  of the buffer, is a decoding error. \<open>demo_TransientBlock\<close> takes every list of three
  elements and validates nothing: hash, parent hash and number are the first three
  items of the header where these are byte strings, and empty otherwise.
\<close>

fun demo_item :: "nat \<Rightarrow> bytes \<Rightarrow> (rlp_item \<times> nat) option"
  and demo_items :: "nat \<Rightarrow> bytes \<Rightarrow> rlp_item list option"
where
  "demo_item 0 bs = None"
| "demo_item (Suc f) [] = None"
| "demo_item (Suc f) (b # bs) =
    (let t = unat b in
     if t < 128 then Some (RStr [b], 1)
     else if t < 184 then
       (if t - 128 \<le> length bs then Some (RStr (take (t - 128) bs), 1 + (t - 128)) else None)
     else if 192 \<le> t \<and> t < 248 then
       (if t - 192 \<le> length bs then
          (case demo_items f (take (t - 192) bs) of
             None \<Rightarrow> None
           | Some xs \<Rightarrow> Some (RList xs, 1 + (t - 192)))
        else None)
     else None)"
| "demo_items 0 bs = None"
| "demo_items (Suc f) [] = Some []"
| "demo_items (Suc f) (b # bs) =
    (case demo_item f (b # bs) of
       None \<Rightarrow> None
     | Some (x, k) \<Rightarrow>
         (case demo_items f (drop k (b # bs)) of None \<Rightarrow> None | Some xs \<Rightarrow> Some (x # xs)))"

definition demo_consume_item :: "bytes \<Rightarrow> nat \<Rightarrow> py_exn + (rlp_item \<times> nat)" where
  "demo_consume_item data i =
    (case demo_item (Suc (length data)) (drop i data) of
       None \<Rightarrow> Inl DecodingError
     | Some (x, k) \<Rightarrow> Inr (x, i + k))"

definition be_int :: "bytes \<Rightarrow> int" where
  "be_int bs = foldl (\<lambda>a b. 256 * a + uint b) 0 bs"

fun header_field :: "rlp_item \<Rightarrow> nat \<Rightarrow> bytes" where
  "header_field (RList xs) k =
    (if k < length xs then (case xs ! k of RStr s \<Rightarrow> s | RList ys \<Rightarrow> []) else [])"
| "header_field (RStr s) k = []"

fun demo_TransientBlock :: "rlp_item \<Rightarrow> py_exn + transient_block" where
  "demo_TransientBlock (RList [h, txs, us]) =
     Inr \<lparr>header = \<lparr>hash = header_field h 0, prevhash = header_field h 1,
                      number = be_int (header_field h 2)\<rparr>,
          transaction_list = txs, uncles = us\<rparr>"
| "demo_TransientBlock r = Inl DeserializationError"

definition demo_env :: import_env where
  "demo_env =
    \<lparr>consume_item = demo_consume_item, TransientBlock = demo_TransientBlock,
     head_after = (\<lambda>bs. if bs = [] then 0 else number (header (last bs)))\<rparr>"

text \<open>A chain that knows the block with hash \<open>[2]\<close> and whose head has number 7.\<close>

definition demo_chain :: chain_service where
  "demo_chain = \<lparr>knows_block = (\<lambda>h. h = [2]), head_number = 7, block_queue = []\<rparr>"

text \<open>
  A buffer of three records: a block with hash \<open>[1]\<close>, parent \<open>[2]\<close> and number 3, a list
  of two byte strings, and a block with hash \<open>[4]\<close>, parent \<open>[1]\<close> and number 4.
\<close>

definition demo_data :: bytes where
  "demo_data = [0xC6, 0xC3, 0x01, 0x02, 0x03, 0xC0, 0xC0,
                0xC2, 0x01, 0x02,
                0xC6, 0xC3, 0x04, 0x01, 0x04, 0xC0, 0xC0]"

definition demo_records :: "rlp_item list" where
  "demo_records =
    [RList [RList [RStr [1], RStr [2], RStr [3]], RList [], RList []],
     RList [RStr [1], RStr [2]],
     RList [RList [RStr [4], RStr [1], RStr [4]], RList [], RList []]]"

text \<open>
  A second constructor, which deserialises the header: it raises
  \<^verbatim>\<open>DeserializationError\<close> unless the header is a list of three byte strings. The
  generator's \<^verbatim>\<open>except\<close> clause is there for such a constructor.
\<close>

fun strict_TransientBlock :: "rlp_item \<Rightarrow> py_exn + transient_block" where
  "strict_TransientBlock (RList [RList [RStr h, RStr p, RStr n], txs, us]) =
     Inr \<lparr>header = \<lparr>hash = h, prevhash = p, number = be_int n\<rparr>,
          transaction_list = txs, uncles = us\<rparr>"
| "strict_TransientBlock r = Inl DeserializationError"

definition strict_env :: import_env where
  "strict_env = demo_env\<lparr>TransientBlock := strict_TransientBlock\<rparr>"

text \<open>
  More buffers.
  \<^item> \<open>two_list_first\<close>: a list of two byte strings, then a block;
  \<^item> \<open>garbled_header\<close>: the block with hash \<open>[1]\<close>, then a list of three byte strings, whose
    first element is no header;
  \<^item> \<open>mixed_data\<close>: the block with hash \<open>[1]\<close>, a list of two byte strings, a list of three
    byte strings, and the block with hash \<open>[4]\<close>;
  \<^item> \<open>malformed_then_undecodable\<close>: a list of two byte strings, then a long string whose
    length starts with a zero byte, which does not decode;
  \<^item> \<open>undecodable_third\<close>: the block with hash \<open>[1]\<close>, a one-byte string, then the same
    undecodable bytes.
\<close>

definition two_list_first :: bytes where
  "two_list_first = [0xC2, 0x01, 0x02, 0xC6, 0xC3, 0x01, 0x02, 0x03, 0xC0, 0xC0]"

definition garbled_header :: bytes where
  "garbled_header = [0xC6, 0xC3, 0x01, 0x02, 0x03, 0xC0, 0xC0,
                     0xC3, 0x01, 0x02, 0x03]"

definition mixed_data :: bytes where
  "mixed_data = [0xC6, 0xC3, 0x01, 0x02, 0x03, 0xC0, 0xC0,
                 0xC2, 0x01, 0x02,
                 0xC3, 0x01, 0x02, 0x03,
                 0xC6, 0xC3, 0x04, 0x01, 0x04, 0xC0, 0xC0]"

definition mixed_records :: "rlp_item list" where
  "mixed_records =
    [RList [RList [RStr [1], RStr [2], RStr [3]], RList [], RList []],
     RList [RStr [1], RStr [2]],
     RList [RStr [1], RStr [2], RStr [3]],
     RList [RList [RStr [4], RStr [1], RStr [4]], RList [], RList []]]"

definition malformed_then_undecodable :: bytes where
  "malformed_then_undecodable = [0xC2, 0x01, 0x02, 0xB8, 0x00]"

definition undecodable_third :: bytes where
  "undecodable_third = [0xC6, 0xC3, 0x01, 0x02, 0x03, 0xC0, 0xC0, 0x05, 0xB8, 0x00]"

text \<open>
  What one round of the export loop logs for block \<open>n\<close>, the bytes it writes when both
  lookups succeed, and a chain of 100001 blocks for the examples.
\<close>

definition export_entries :: "int \<Rightarrow> int \<Rightarrow> int \<Rightarrow> log_entry list" where
  "export_entries from' to n =
    LogEntry DEBUG ''Exporting block {}'' [I n] [] #
    (if (n - from') mod 50000 = 0 then [progress_report n (min (n + 50000) to)] else [])"

definition raw :: "export_env \<Rightarrow> int \<Rightarrow> bytes" where
  "raw env n = (case fetch env n of Inr bs \<Rightarrow> bs | Inl e \<Rightarrow> [])"

definition demo_export_env :: export_env where
  "demo_export_env =
    \<lparr>chain_head_number = 100000,
     get_block_by_number = (\<lambda>n. if 0 \<le> n \<and> n \<le> 100000 then Inr [word_of_int n] else Inl KeyError),
     db_get = (\<lambda>h. Inr (0xC0 # h))\<rparr>"

text \<open>
  Vocabulary for the statements: the record logged when the shared password fails on an
  account, whether a password opens the account at an address, the store after the
  password has been tried on a list of addresses, and the two prompts.
\<close>

definition password_failure :: "string \<Rightarrow> log_entry" where
  "password_failure identifier =
    LogEntry FATAL ''Could not unlock account with password from file'' []
      [(''account_id'', S identifier)]"

definition opens :: "string \<Rightarrow> (nat \<Rightarrow> account) \<Rightarrow> nat \<Rightarrow> bool" where
  "opens pw accs a = (pw = keystore_password (accs a))"

definition unlocked_by :: "string \<Rightarrow> nat list \<Rightarrow> (nat \<Rightarrow> account) \<Rightarrow> nat \<Rightarrow> account" where
  "unlocked_by pw as accs =
    (\<lambda>a. if a \<in> set as \<and> opens pw accs a then (accs a)\<lparr>locked := False\<rparr> else accs a)"

definition first_prompt :: "int option \<Rightarrow> string \<Rightarrow> prompt" where
  "first_prompt max_attempts identifier =
    Prompt first_attempt_fmt (max_attempts_str max_attempts)
      [(''id'', S identifier), (''attempt'', I 1)]"

definition further_prompt :: "int option \<Rightarrow> int \<Rightarrow> prompt" where
  "further_prompt max_attempts attempt =
    Prompt further_attempts_fmt (max_attempts_str max_attempts) [(''attempt'', I attempt)]"

text \<open>A registry of three locked accounts for the examples.\<close>

definition demo_find :: "string \<rightharpoonup> nat" where
  "demo_find = [''alice'' \<mapsto> 0, ''bob'' \<mapsto> 1, ''carol'' \<mapsto> 2]"

definition demo_accounts :: "nat \<Rightarrow> account" where
  "demo_accounts n =
    \<lparr>keystore_password = (if n = 0 then ''pa'' else if n = 1 then ''pb'' else ''pc''),
     locked = True\<rparr>"

definition demo_unlock_state :: "string list \<Rightarrow> unlock_state" where
  "demo_unlock_state ins =
    \<lparr>logged = [], accounts = demo_accounts, attempts = [], prompts = [], inputs = ins\<rparr>"

section \<open>Properties of the import\<close>

lemma blocks_next_decode_error:
  "i < length data \<Longrightarrow> consume_item env data i = Inl DecodingError \<Longrightarrow>
   blocks_next env data i =
     GExit 1 [LogEntry FATAL ''invalid RLP encoding'' [] [(''byte_index'', I (int i))]]"
  by (simp add: blocks_next_def)

lemma blocks_next_block:
  "i < length data \<Longrightarrow> consume_item env data i = Inr (r, j) \<Longrightarrow> adapt env r = Inr b \<Longrightarrow>
   blocks_next env data i = GYield (Some b) j []"
  by (simp add: blocks_next_def adapt_def split: if_splits)

lemma blocks_next_invalid:
  "i < length data \<Longrightarrow> consume_item env data i = Inr (r, j) \<Longrightarrow> adapt env r = Inl e \<Longrightarrow>
   e = IndexError \<or> e = DeserializationError \<Longrightarrow>
   blocks_next env data i =
     GYield None j [LogEntry WARNING ''not a valid block'' [] [(''byte_index'', I (int i))]]"
  by (auto simp add: blocks_next_def adapt_def split: if_splits)

lemma blocks_next_end: "length data \<le> i \<Longrightarrow> blocks_next env data i = GStop"
  by (simp add: blocks_next_def)

lemma is_skip_warning_simps [simp]:
  "is_skip_warning (skip_warning n)"
  "\<not> is_skip_warning (LogEntry WARNING ''not a valid block'' xs ys)"
  "\<not> is_skip_warning (LogEntry DEBUG m xs ys)"
  "\<not> is_skip_warning (LogEntry INFO m xs ys)"
  "\<not> is_skip_warning (LogEntry FATAL m xs ys)"
  by (simp_all add: is_skip_warning_def skip_warning_def)

lemma blocks_next_escape:
  "i < length data \<Longrightarrow> consume_item env data i = Inr (r, j) \<Longrightarrow> adapt env r = Inl e \<Longrightarrow>
   \<not> (e = IndexError \<or> e = DeserializationError) \<Longrightarrow>
   blocks_next env data i = GRaise e"
  by (auto simp add: blocks_next_def adapt_def split: if_splits)

lemma is_fatal_simps [simp]:
  "is_fatal (LogEntry FATAL m xs ys)"
  "\<not> is_fatal (LogEntry WARNING m xs ys)"
  "\<not> is_fatal (LogEntry DEBUG m xs ys)"
  "\<not> is_fatal (LogEntry INFO m xs ys)"
  "\<not> is_fatal (skip_warning n)"
  by (simp_all add: is_fatal_def skip_warning_def)

lemma scanned_Cons:
  "scanned env (r # rs) = (if caught env r then r # scanned env rs else [])"
  by (simp add: scanned_def)

lemma import_loop_scanned:
  assumes "records env data i rs k"
  shows "\<exists>st'.
      block_queue (chain st') = block_queue (chain st) @ blocks_of env (scanned env rs)
    \<and> filter is_skip_warning (logged st') =
        filter is_skip_warning (logged st) @ map skip_warning (skipped env n (scanned env rs))
    \<and> filter is_fatal (logged st') = filter is_fatal (logged st)
    \<and> (if list_all (caught env) rs
       then import_loop env data i n st = import_loop env data k (n + length rs) st'
       else \<exists>e. import_loop env data i n st = Some (Raised e, st') \<and>
              adapt env (hd (dropWhile (caught env) rs)) = Inl e)"
  using assms
proof (induction arbitrary: n st rule: records.induct)
  case (records_Nil i)
  show ?case by (intro exI [of _ st]) (simp add: scanned_def)
next
  case (records_Cons i r j rs k)
  show ?case
  proof (cases "adapt env r")
    case (Inr b)
    then have c: "caught env r" by (simp add: caught_def)
    let ?st1 = "(emit (LogEntry DEBUG ''adding block to queue'' []
                    [(''number_in_file'', I (int n)),
                     (''number_in_chain'', I (number (header b)))])
              (st\<lparr>logged := logged st @ []\<rparr>))
            \<lparr>chain := add_block b (chain st)\<rparr>"
    have step: "import_loop env data i n st = import_loop env data j (n + 1) ?st1"
      by (subst import_loop.simps)
         (simp add: blocks_next_block [OF records_Cons.hyps(1,2) Inr])
    from records_Cons.IH [of ?st1 "n + 1"] obtain st' where
      q: "block_queue (chain st') = block_queue (chain ?st1) @ blocks_of env (scanned env rs)"
      and s: "filter is_skip_warning (logged st') =
          filter is_skip_warning (logged ?st1) @ map skip_warning (skipped env (n + 1) (scanned env rs))"
      and f: "filter is_fatal (logged st') = filter is_fatal (logged ?st1)"
      and run: "if list_all (caught env) rs
         then import_loop env data j (n + 1) ?st1 = import_loop env data k (n + 1 + length rs) st'
         else \<exists>e. import_loop env data j (n + 1) ?st1 = Some (Raised e, st') \<and>
                adapt env (hd (dropWhile (caught env) rs)) = Inl e"
      by blast
    show ?thesis
    proof (intro exI [of _ st'] conjI)
      show "block_queue (chain st') = block_queue (chain st) @ blocks_of env (scanned env (r # rs))"
        using q Inr c by (simp add: scanned_Cons emit_def add_block_def)
      show "filter is_skip_warning (logged st') =
          filter is_skip_warning (logged st) @ map skip_warning (skipped env n (scanned env (r # rs)))"
        using s Inr c by (simp add: scanned_Cons emit_def)
      show "filter is_fatal (logged st') = filter is_fatal (logged st)"
        using f by (simp add: emit_def)
      show "if list_all (caught env) (r # rs)
         then import_loop env data i n st = import_loop env data k (n + length (r # rs)) st'
         else \<exists>e. import_loop env data i n st = Some (Raised e, st') \<and>
                adapt env (hd (dropWhile (caught env) (r # rs))) = Inl e"
        using run c step by (simp split: if_splits)
    qed
  next
    case (Inl e)
    show ?thesis
    proof (cases "e = IndexError \<or> e = DeserializationError")
      case True
      with Inl have c: "caught env r" by (simp add: caught_def)
      let ?st1 = "emit (LogEntry WARNING ''skipping block'' [] [(''number_in_file'', I (int n))])
              (st\<lparr>logged := logged st @
                 [LogEntry WARNING ''not a valid block'' [] [(''byte_index'', I (int i))]]\<rparr>)"
      have step: "import_loop env data i n st = import_loop env data j (n + 1) ?st1"
        by (subst import_loop.simps)
           (simp add: blocks_next_invalid [OF records_Cons.hyps(1,2) Inl True])
      from records_Cons.IH [of ?st1 "n + 1"] obtain st' where
        q: "block_queue (chain st') = block_queue (chain ?st1) @ blocks_of env (scanned env rs)"
        and s: "filter is_skip_warning (logged st') =
            filter is_skip_warning (logged ?st1) @ map skip_warning (skipped env (n + 1) (scanned env rs))"
        and f: "filter is_fatal (logged st') = filter is_fatal (logged ?st1)"
        and run: "if list_all (caught env) rs
           then import_loop env data j (n + 1) ?st1 = import_loop env data k (n + 1 + length rs) st'
           else \<exists>e. import_loop env data j (n + 1) ?st1 = Some (Raised e, st') \<and>
                adapt env (hd (dropWhile (caught env) rs)) = Inl e"
        by blast
      show ?thesis
      proof (intro exI [of _ st'] conjI)
        show "block_queue (chain st') = block_queue (chain st) @ blocks_of env (scanned env (r # rs))"
          using q Inl c by (simp add: scanned_Cons emit_def)
        show "filter is_skip_warning (logged st') =
            filter is_skip_warning (logged st) @ map skip_warning (skipped env n (scanned env (r # rs)))"
          using s Inl c by (simp add: scanned_Cons emit_def skip_warning_def [symmetric])
        show "filter is_fatal (logged st') = filter is_fatal (logged st)"
          using f by (simp add: emit_def)
        show "if list_all (caught env) (r # rs)
           then import_loop env data i n st = import_loop env data k (n + length (r # rs)) st'
           else \<exists>e. import_loop env data i n st = Some (Raised e, st') \<and>
                  adapt env (hd (dropWhile (caught env) (r # rs))) = Inl e"
          using run c step by (simp split: if_splits)
      qed
    next
      case False
      with Inl have c: "\<not> caught env r" by (simp add: caught_def)
      have "import_loop env data i n st = Some (Raised e, st)"
        by (subst import_loop.simps)
           (simp add: blocks_next_escape [OF records_Cons.hyps(1,2) Inl False])
      with c Inl show ?thesis by (intro exI [of _ st]) (auto simp: scanned_Cons)
    qed
  qed
qed

lemma blocks_of_accepted_records:
  "list_all2 (\<lambda>x b. adapt env x = Inr b) (filter (accepted env) ps) (blocks_of env ps)"
  by (induction ps) (auto simp: accepted_def split: sum.splits)

lemma skipped_positions:
  "skipped env n ps = map (\<lambda>k. n + k) [k \<leftarrow> [0..<length ps]. \<not> accepted env (ps ! k)]"
proof (induction ps arbitrary: n)
  case Nil
  then show ?case by simp
next
  case (Cons r ps)
  have upt: "[0..<length (r # ps)] = 0 # map Suc [0..<length ps]"
    by (simp add: upt_conv_Cons map_Suc_upt del: upt_Suc)
  have tl: "skipped env (Suc n) ps =
      map (\<lambda>k. n + k) [k \<leftarrow> map Suc [0..<length ps]. \<not> accepted env ((r # ps) ! k)]"
    by (simp add: Cons.IH filter_map comp_def)
  show ?case
  proof (cases "adapt env r")
    case (Inr b)
    then have "accepted env r" by (simp add: accepted_def)
    with Inr tl show ?thesis unfolding upt by simp
  next
    case (Inl e)
    then have "\<not> accepted env r" by (simp add: accepted_def)
    with Inl tl show ?thesis unfolding upt by simp
  qed
qed

lemma skipped_positions_0:
  "skipped env 0 ps = [k \<leftarrow> [0..<length ps]. \<not> accepted env (ps ! k)]"
  using skipped_positions [of env 0 ps] by simp

lemma scanned_all: "list_all (caught env) rs \<Longrightarrow> scanned env rs = rs"
  by (simp add: scanned_def list_all_iff)

lemma length_filter_positions:
  "length [k \<leftarrow> [0..<length rs]. P (rs ! k)] = length (filter P rs)"
proof -
  have "map (\<lambda>k. rs ! k) [k \<leftarrow> [0..<length rs]. P (rs ! k)] = filter P (map (\<lambda>k. rs ! k) [0..<length rs])"
    by (simp add: filter_map comp_def)
  also have "\<dots> = filter P rs" by (simp add: map_nth)
  finally have "length (map (\<lambda>k. rs ! k) [k \<leftarrow> [0..<length rs]. P (rs ! k)]) = length (filter P rs)"
    by simp
  then show ?thesis by simp
qed

lemma import_blocks_scan:
  assumes q: "block_queue c = []"
    and nonempty: "0 < length data"
    and first: "consume_item env data 0 = Inr (r, j)" "adapt env r = Inr b"
    and l: "knows_block c (hash (header b)) \<or> knows_block c (prevhash (header b))"
  shows "import_blocks env c data =
    (case import_loop env data 0 0 \<lparr>logged = [LogEntry INFO ''importing blocks'' [] []], chain = c\<rparr> of
       None \<Rightarrow> None
     | Some (Returned, st') \<Rightarrow>
         Some (Returned,
           emit (LogEntry INFO ''import finished'' []
                  [(''head_number'', I (head_after env (block_queue (chain st'))))]) st')
     | Some (Exit code, st') \<Rightarrow> Some (Exit code, st')
     | Some (Raised e, st') \<Rightarrow> Some (Raised e, st'))"
  using q l by (simp add: import_blocks_def blocks_next_block [OF nonempty first] emit_def)

lemma import_loop_end:
  "length data \<le> k \<Longrightarrow> import_loop env data k n st = Some (Returned, st)"
  by (subst import_loop.simps) (simp add: blocks_next_end)

lemma import_loop_decode_error:
  "k < length data \<Longrightarrow> consume_item env data k = Inl DecodingError \<Longrightarrow>
   import_loop env data k n st =
     Some (Exit 1, st\<lparr>logged := logged st @
       [LogEntry FATAL ''invalid RLP encoding'' [] [(''byte_index'', I (int k))]]\<rparr>)"
  by (subst import_loop.simps) (simp add: blocks_next_decode_error)

lemma blocks_next_decoder_raises:
  "i < length data \<Longrightarrow> consume_item env data i = Inl e \<Longrightarrow> e \<noteq> DecodingError \<Longrightarrow>
   blocks_next env data i = GRaise e"
  by (simp add: blocks_next_def)

lemma import_loop_decoder_raises:
  "k < length data \<Longrightarrow> consume_item env data k = Inl e \<Longrightarrow> e \<noteq> DecodingError \<Longrightarrow>
   import_loop env data k n st = Some (Raised e, st)"
  by (subst import_loop.simps) (simp add: blocks_next_decoder_raises)

lemma import_loop_enqueue:
  assumes "i < length data" "consume_item env data i = Inr (r, j)" "adapt env r = Inr b"
  shows "import_loop env data i n st =
    import_loop env data j (n + 1)
      (st\<lparr>logged := logged st @
            [LogEntry DEBUG ''adding block to queue'' []
               [(''number_in_file'', I (int n)), (''number_in_chain'', I (number (header b)))]],
          chain := add_block b (chain st)\<rparr>)"
  by (subst import_loop.simps) (simp add: blocks_next_block [OF assms] emit_def)

lemma import_loop_skip:
  assumes "i < length data" "consume_item env data i = Inr (r, j)" "adapt env r = Inl e"
    and "e = IndexError \<or> e = DeserializationError"
  shows "import_loop env data i n st =
    import_loop env data j (n + 1)
      (st\<lparr>logged := logged st @
            [LogEntry WARNING ''not a valid block'' [] [(''byte_index'', I (int i))],
             skip_warning n]\<rparr>)"
  by (subst import_loop.simps) (simp add: blocks_next_invalid [OF assms] emit_def skip_warning_def)

lemma import_blocks_first_skipped:
  assumes "block_queue c = []" "0 < length data" "consume_item env data 0 = Inr (r, j)"
    and "adapt env r = Inl e" "e = IndexError \<or> e = DeserializationError"
  shows "import_blocks env c data =
    Some (Exit 1,
      \<lparr>logged =
         [LogEntry INFO ''importing blocks'' [] [],
          LogEntry WARNING ''not a valid block'' [] [(''byte_index'', I 0)],
          LogEntry FATAL ''first block invalid'' [] []],
       chain = c\<rparr>)"
  using blocks_next_invalid [OF assms(2-5)] assms(1)
  by (simp add: import_blocks_def emit_def)

lemma import_blocks_first_unlinked:
  assumes "block_queue c = []" "0 < length data" "consume_item env data 0 = Inr (r, j)"
    and "adapt env r = Inr b"
    and "\<not> (knows_block c (hash (header b)) \<or> knows_block c (prevhash (header b)))"
  shows "import_blocks env c data =
    Some (Exit 1,
      \<lparr>logged =
         [LogEntry INFO ''importing blocks'' [] [],
          LogEntry FATAL ''unlinked chains'' []
            [(''newest_known_block'', I (head_number c)),
             (''first_unknown_block'', I (number (header b)))]],
       chain = c\<rparr>)"
  using blocks_next_block [OF assms(2-4)] assms(1,5)
  by (simp add: import_blocks_def emit_def)

lemma import_blocks_first_escapes:
  assumes "block_queue c = []" "0 < length data" "consume_item env data 0 = Inr (r, j)"
    and "adapt env r = Inl e" "\<not> (e = IndexError \<or> e = DeserializationError)"
  shows "import_blocks env c data =
    Some (Raised e, \<lparr>logged = [LogEntry INFO ''importing blocks'' [] []], chain = c\<rparr>)"
  using blocks_next_escape [OF assms(2-5)] assms(1)
  by (simp add: import_blocks_def emit_def)

lemma decode_fatal_not_fatal_free:
  "filter is_fatal xs = [] \<Longrightarrow> decode_fatal k \<notin> set xs"
  by (auto simp: filter_empty_conv decode_fatal_def is_fatal_def)

text \<open>
  Claim C1, amended. The chain service starts with an empty queue, as line 312 asserts.
  Take a buffer that is a sequence of records, whose first record is made a block that is
  linked to the chain (the chain knows its hash or its parent's hash). The scan goes
  through the records in file order, to the end of the file or to the first record on
  which the constructor raises something else than \<^verbatim>\<open>IndexError\<close> and
  \<^verbatim>\<open>DeserializationError\<close>: in the first case the import returns, in the second that
  exception escapes. Of the records before that point (\<open>scanned\<close>: all of them when the
  import returns), the queue holds exactly one block per record that the adapter
  accepts, in the order of the records, and the log holds exactly one \<^verbatim>\<open>skipping block\<close>
  warning per record that it does not accept, tagged with the record's position in the
  file. A record is not accepted when it is not a list of three elements, and also when
  it is one on which the constructor raises \<^verbatim>\<open>IndexError\<close> or \<^verbatim>\<open>DeserializationError\<close>.
\<close>

theorem import_enqueues_accepted_records:
  assumes q: "block_queue c = []"
    and walk: "records env data 0 (r # rs) k" and full: "length data \<le> k"
    and first: "adapt env r = Inr first_block"
    and l: "knows_block c (hash (header first_block)) \<or>
            knows_block c (prevhash (header first_block))"
  shows "\<exists>out st. import_blocks env c data = Some (out, st)
     \<and> (list_all (caught env) (r # rs) \<longrightarrow> out = Returned \<and> scanned env (r # rs) = r # rs)
     \<and> (\<not> list_all (caught env) (r # rs) \<longrightarrow>
          (\<exists>e. out = Raised e \<and> adapt env (hd (dropWhile (caught env) (r # rs))) = Inl e))
     \<and> list_all2 (\<lambda>x b. adapt env x = Inr b)
          (filter (accepted env) (scanned env (r # rs))) (block_queue (chain st))
     \<and> length (block_queue (chain st)) = length (filter (accepted env) (scanned env (r # rs)))
     \<and> filter is_skip_warning (logged st) =
          map skip_warning
            [n \<leftarrow> [0..<length (scanned env (r # rs))]. \<not> accepted env (scanned env (r # rs) ! n)]
     \<and> length (filter is_skip_warning (logged st)) =
          length (filter (\<lambda>x. \<not> accepted env x) (scanned env (r # rs)))"
proof -
  let ?rs = "r # rs"
  let ?ps = "scanned env ?rs"
  let ?st0 = "\<lparr>logged = [LogEntry INFO ''importing blocks'' [] []], chain = c\<rparr>"
  from walk obtain j where ne: "0 < length data" and dec: "consume_item env data 0 = Inr (r, j)"
    by (auto elim: records.cases)
  from import_loop_scanned [OF walk, of ?st0 0] obtain st' where
    queue: "block_queue (chain st') = block_queue (chain ?st0) @ blocks_of env ?ps"
    and skips: "filter is_skip_warning (logged st') =
      filter is_skip_warning (logged ?st0) @ map skip_warning (skipped env 0 ?ps)"
    and run: "if list_all (caught env) ?rs
       then import_loop env data 0 0 ?st0 = import_loop env data k (0 + length ?rs) st'
       else \<exists>e. import_loop env data 0 0 ?st0 = Some (Raised e, st') \<and>
              adapt env (hd (dropWhile (caught env) ?rs)) = Inl e"
    by blast
  let ?fin = "emit (LogEntry INFO ''import finished'' []
                  [(''head_number'', I (head_after env (block_queue (chain st'))))]) st'"
  have "\<exists>out st. import_blocks env c data = Some (out, st)
     \<and> (list_all (caught env) ?rs \<longrightarrow> out = Returned)
     \<and> (\<not> list_all (caught env) ?rs \<longrightarrow>
          (\<exists>e. out = Raised e \<and> adapt env (hd (dropWhile (caught env) ?rs)) = Inl e))
     \<and> block_queue (chain st) = blocks_of env ?ps
     \<and> filter is_skip_warning (logged st) = map skip_warning (skipped env 0 ?ps)"
  proof (cases "list_all (caught env) ?rs")
    case True
    with run have "import_loop env data 0 0 ?st0 = Some (Returned, st')"
      by (simp add: import_loop_end [OF full])
    then have "import_blocks env c data = Some (Returned, ?fin)"
      by (simp add: import_blocks_scan [OF q ne dec first l])
    moreover have "block_queue (chain ?fin) = blocks_of env ?ps"
      using queue q by (simp add: emit_def)
    moreover have "filter is_skip_warning (logged ?fin) = map skip_warning (skipped env 0 ?ps)"
      using skips by (simp add: emit_def del: skipped.simps)
    ultimately show ?thesis using True by blast
  next
    case False
    with run obtain e where "import_loop env data 0 0 ?st0 = Some (Raised e, st')"
      and e: "adapt env (hd (dropWhile (caught env) ?rs)) = Inl e" by auto
    then have "import_blocks env c data = Some (Raised e, st')"
      by (simp add: import_blocks_scan [OF q ne dec first l])
    moreover have "block_queue (chain st') = blocks_of env ?ps"
      using queue q by simp
    moreover have "filter is_skip_warning (logged st') = map skip_warning (skipped env 0 ?ps)"
      using skips by (simp del: skipped.simps)
    ultimately show ?thesis using False e by blast
  qed
  then obtain out st where res: "import_blocks env c data = Some (out, st)"
    and ok: "list_all (caught env) ?rs \<longrightarrow> out = Returned"
    and esc: "\<not> list_all (caught env) ?rs \<longrightarrow>
          (\<exists>e. out = Raised e \<and> adapt env (hd (dropWhile (caught env) ?rs)) = Inl e)"
    and qf: "block_queue (chain st) = blocks_of env ?ps"
    and sk: "filter is_skip_warning (logged st) = map skip_warning (skipped env 0 ?ps)"
    by blast
  have all2: "list_all2 (\<lambda>x b. adapt env x = Inr b)
          (filter (accepted env) ?ps) (block_queue (chain st))"
    unfolding qf by (rule blocks_of_accepted_records)
  have len1: "length (block_queue (chain st)) = length (filter (accepted env) ?ps)"
    using all2 by (simp add: list_all2_lengthD)
  have sf: "filter is_skip_warning (logged st) =
      map skip_warning [n \<leftarrow> [0..<length ?ps]. \<not> accepted env (?ps ! n)]"
    using sk by (simp only: skipped_positions_0)
  have len2: "length (filter is_skip_warning (logged st)) =
          length (filter (\<lambda>x. \<not> accepted env x) ?ps)"
    unfolding sf
    by (simp only: length_map length_filter_positions [of "\<lambda>x. \<not> accepted env x" ?ps])
  from ok have ok': "list_all (caught env) ?rs \<longrightarrow> out = Returned \<and> ?ps = ?rs"
    using scanned_all [of env ?rs] by blast
  from res ok' esc all2 len1 sf len2 show ?thesis by blast
qed

text \<open>
  As the claim is written it counts the records that are lists of three elements. In
  \<open>garbled_header\<close> both records are, and the constructor \<open>strict_TransientBlock\<close> raises
  \<^verbatim>\<open>DeserializationError\<close> on the second: one block is enqueued for two such records, and
  the \<^verbatim>\<open>skipping block\<close> warning is logged for a record that is a list of three elements.
\<close>

lemma garbled_walk:
  "records strict_env garbled_header 0
     [RList [RList [RStr [1], RStr [2], RStr [3]], RList [], RList []],
      RList [RStr [1], RStr [2], RStr [3]]] 11"
  apply (rule records_Cons [where j = 7])
    apply (simp add: garbled_header_def)
   apply (simp add: strict_env_def demo_env_def garbled_header_def demo_consume_item_def)
  apply (rule records_Cons [where j = 11])
    apply (simp add: garbled_header_def)
   apply (simp add: strict_env_def demo_env_def garbled_header_def demo_consume_item_def)
  apply (rule records_Nil)
  done

theorem import_skips_rejected_three_list:
  "records strict_env garbled_header 0
     [RList [RList [RStr [1], RStr [2], RStr [3]], RList [], RList []],
      RList [RStr [1], RStr [2], RStr [3]]] 11 \<and>
   length garbled_header = 11 \<and>
   is_block_shape (RList [RList [RStr [1], RStr [2], RStr [3]], RList [], RList []]) \<and>
   is_block_shape (RList [RStr [1], RStr [2], RStr [3]]) \<and>
   adapt strict_env (RList [RList [RStr [1], RStr [2], RStr [3]], RList [], RList []]) =
     Inr \<lparr>header = \<lparr>hash = [1], prevhash = [2], number = 3\<rparr>,
          transaction_list = RList [], uncles = RList []\<rparr> \<and>
   knows_block demo_chain [2] \<and>
   import_blocks strict_env demo_chain garbled_header =
     Some (Returned,
       \<lparr>logged =
          [LogEntry INFO ''importing blocks'' [] [],
           LogEntry DEBUG ''adding block to queue'' []
             [(''number_in_file'', I 0), (''number_in_chain'', I 3)],
           LogEntry WARNING ''not a valid block'' [] [(''byte_index'', I 7)],
           LogEntry WARNING ''skipping block'' [] [(''number_in_file'', I 1)],
           LogEntry INFO ''import finished'' [] [(''head_number'', I 3)]],
        chain = demo_chain
          \<lparr>block_queue :=
             [\<lparr>header = \<lparr>hash = [1], prevhash = [2], number = 3\<rparr>,
               transaction_list = RList [], uncles = RList []\<rparr>]\<rparr>\<rparr>)"
proof -
  have run: "import_blocks strict_env demo_chain garbled_header =
     Some (Returned,
       \<lparr>logged =
          [LogEntry INFO ''importing blocks'' [] [],
           LogEntry DEBUG ''adding block to queue'' []
             [(''number_in_file'', I 0), (''number_in_chain'', I 3)],
           LogEntry WARNING ''not a valid block'' [] [(''byte_index'', I 7)],
           LogEntry WARNING ''skipping block'' [] [(''number_in_file'', I 1)],
           LogEntry INFO ''import finished'' [] [(''head_number'', I 3)]],
        chain = demo_chain
          \<lparr>block_queue :=
             [\<lparr>header = \<lparr>hash = [1], prevhash = [2], number = 3\<rparr>,
               transaction_list = RList [], uncles = RList []\<rparr>]\<rparr>\<rparr>)"
  proof -
    let ?r1 = "RList [RList [RStr [1], RStr [2], RStr [3]], RList [], RList []]"
    let ?r2 = "RList [RStr [1], RStr [2], RStr [3]]"
    let ?b1 = "\<lparr>header = \<lparr>hash = [1], prevhash = [2], number = 3\<rparr>,
               transaction_list = RList [], uncles = RList []\<rparr>"
    let ?st0 = "\<lparr>logged = [LogEntry INFO ''importing blocks'' [] []], chain = demo_chain\<rparr>"
    let ?st1 = "?st0\<lparr>logged := logged ?st0 @
            [LogEntry DEBUG ''adding block to queue'' []
               [(''number_in_file'', I (int 0)), (''number_in_chain'', I (number (header ?b1)))]],
          chain := add_block ?b1 (chain ?st0)\<rparr>"
    let ?st2 = "?st1\<lparr>logged := logged ?st1 @
            [LogEntry WARNING ''not a valid block'' [] [(''byte_index'', I (int 7))],
             skip_warning (0 + 1)]\<rparr>"
    have q: "block_queue demo_chain = []" by (simp add: demo_chain_def)
    have ne: "0 < length garbled_header" by (simp add: garbled_header_def)
    have d0: "consume_item strict_env garbled_header 0 = Inr (?r1, 7)"
      by (simp add: strict_env_def demo_env_def garbled_header_def demo_consume_item_def)
    have a0: "adapt strict_env ?r1 = Inr ?b1"
      by (simp add: adapt_def strict_env_def be_int_def)
    have l: "knows_block demo_chain (hash (header ?b1)) \<or>
        knows_block demo_chain (prevhash (header ?b1))"
      by (simp add: demo_chain_def)
    have d1: "consume_item strict_env garbled_header 7 = Inr (?r2, 11)"
      by (simp add: strict_env_def demo_env_def garbled_header_def demo_consume_item_def)
    have a1: "adapt strict_env ?r2 = Inl DeserializationError"
      by (simp add: adapt_def strict_env_def)
    have "import_loop strict_env garbled_header 0 0 ?st0 =
        import_loop strict_env garbled_header 7 (0 + 1) ?st1"
      by (rule import_loop_enqueue [OF ne d0 a0])
    also have "\<dots> = import_loop strict_env garbled_header 11 (0 + 1 + 1) ?st2"
      by (rule import_loop_skip [OF _ d1 a1]) (simp_all add: garbled_header_def)
    also have "\<dots> = Some (Returned, ?st2)"
      by (rule import_loop_end) (simp add: garbled_header_def)
    finally have "import_loop strict_env garbled_header 0 0 ?st0 = Some (Returned, ?st2)" .
    then have "import_blocks strict_env demo_chain garbled_header =
        Some (Returned,
          emit (LogEntry INFO ''import finished'' []
                  [(''head_number'', I (head_after strict_env (block_queue (chain ?st2))))]) ?st2)"
      by (simp add: import_blocks_scan [OF q ne d0 a0 l])
    then show ?thesis
      by (simp add: emit_def add_block_def skip_warning_def demo_chain_def strict_env_def
          demo_env_def)
  qed
  have len: "length garbled_header = 11" by (simp add: garbled_header_def)
  have first: "adapt strict_env (RList [RList [RStr [1], RStr [2], RStr [3]], RList [], RList []]) =
     Inr \<lparr>header = \<lparr>hash = [1], prevhash = [2], number = 3\<rparr>,
          transaction_list = RList [], uncles = RList []\<rparr>"
    by (simp add: adapt_def strict_env_def be_int_def)
  have known: "knows_block demo_chain [2]" by (simp add: demo_chain_def)
  show ?thesis by (simp add: garbled_walk run len first known)
qed

lemma mixed_walk: "records strict_env mixed_data 0 mixed_records 21"
  unfolding mixed_records_def
  apply (rule records_Cons [where j = 7])
    apply (simp add: mixed_data_def)
   apply (simp add: strict_env_def demo_env_def mixed_data_def demo_consume_item_def)
  apply (rule records_Cons [where j = 10])
    apply (simp add: mixed_data_def)
   apply (simp add: strict_env_def demo_env_def mixed_data_def demo_consume_item_def)
  apply (rule records_Cons [where j = 14])
    apply (simp add: mixed_data_def)
   apply (simp add: strict_env_def demo_env_def mixed_data_def demo_consume_item_def)
  apply (rule records_Cons [where j = 21])
    apply (simp add: mixed_data_def)
   apply (simp add: strict_env_def demo_env_def mixed_data_def demo_consume_item_def)
  apply (rule records_Nil)
  done

theorem import_enqueues_accepted_records_witness:
  "records strict_env mixed_data 0 mixed_records 21 \<and>
   map (accepted strict_env) mixed_records = [True, False, False, True] \<and>
   map is_block_shape mixed_records = [True, False, True, True] \<and>
   (\<exists>st. import_blocks strict_env demo_chain mixed_data = Some (Returned, st)
      \<and> map (\<lambda>b. number (header b)) (block_queue (chain st)) = [3, 4]
      \<and> filter is_skip_warning (logged st) = [skip_warning 1, skip_warning 2])"
proof -
  let ?b = "\<lparr>header = \<lparr>hash = [1], prevhash = [2], number = 3\<rparr>,
          transaction_list = RList [], uncles = RList []\<rparr>"
  have q: "block_queue demo_chain = []" by (simp add: demo_chain_def)
  have full: "length mixed_data \<le> 21" by (simp add: mixed_data_def)
  have first: "adapt strict_env (hd mixed_records) = Inr ?b"
    by (simp add: mixed_records_def adapt_def strict_env_def be_int_def)
  have l: "knows_block demo_chain (hash (header ?b)) \<or> knows_block demo_chain (prevhash (header ?b))"
    by (simp add: demo_chain_def)
  have split: "mixed_records = hd mixed_records # tl mixed_records"
    by (simp add: mixed_records_def)
  have acc: "map (accepted strict_env) mixed_records = [True, False, False, True]"
    by (simp add: mixed_records_def accepted_def adapt_def strict_env_def)
  have shape: "map is_block_shape mixed_records = [True, False, True, True]"
    by (simp add: mixed_records_def)
  have c: "list_all (caught strict_env) mixed_records"
    by (simp add: mixed_records_def caught_def adapt_def strict_env_def)
  then have sc: "scanned strict_env mixed_records = mixed_records" by (rule scanned_all)
  from import_enqueues_accepted_records
    [of demo_chain strict_env mixed_data "hd mixed_records" "tl mixed_records" 21 ?b]
    q mixed_walk full first l split c sc
  obtain st where res: "import_blocks strict_env demo_chain mixed_data = Some (Returned, st)"
    and blocks: "list_all2 (\<lambda>x b. adapt strict_env x = Inr b)
          (filter (accepted strict_env) mixed_records) (block_queue (chain st))"
    and skips: "filter is_skip_warning (logged st) =
          map skip_warning
            [n \<leftarrow> [0..<length mixed_records]. \<not> accepted strict_env (mixed_records ! n)]"
    by auto
  from blocks have a: "map (\<lambda>b. number (header b)) (block_queue (chain st)) = [3, 4]"
    by (auto simp: mixed_records_def accepted_def adapt_def strict_env_def be_int_def
        list_all2_Cons1)
  from skips have b: "filter is_skip_warning (logged st) = [skip_warning 1, skip_warning 2]"
    by (simp add: mixed_records_def upt_rec accepted_def adapt_def strict_env_def
        numeral_2_eq_2)
  show ?thesis
    by (intro conjI mixed_walk acc shape) (rule exI [of _ st], simp add: res a b)
qed

text \<open>
  Claim C2. When the first record decodes and is made a block whose hash and whose
  parent hash are both unknown to the chain, the import leaves through \<^verbatim>\<open>sys.exit(1)\<close>
  with nothing enqueued; the record it logs last is the fatal \<^verbatim>\<open>unlinked chains\<close>, which
  carries the number of the chain's head and the number of that block.
\<close>

theorem import_unlinked_chain:
  assumes "block_queue c = []"
    and "0 < length data" and "consume_item env data 0 = Inr (r, j)"
    and "is_block_shape r" and "TransientBlock env r = Inr first_block"
    and "\<not> knows_block c (hash (header first_block))"
    and "\<not> knows_block c (prevhash (header first_block))"
  shows "import_blocks env c data =
    Some (Exit 1,
      \<lparr>logged =
         [LogEntry INFO ''importing blocks'' [] [],
          LogEntry FATAL ''unlinked chains'' []
            [(''newest_known_block'', I (head_number c)),
             (''first_unknown_block'', I (number (header first_block)))]],
       chain = c\<rparr>)"
proof -
  from assms(4,5) have "adapt env r = Inr first_block" by (simp add: adapt_def)
  from blocks_next_block [OF assms(2,3) this] assms(1,6,7) show ?thesis
    by (simp add: import_blocks_def emit_def)
qed

theorem import_unlinked_chain_witness:
  "import_blocks demo_env (demo_chain\<lparr>knows_block := (\<lambda>h. h = [9])\<rparr>) demo_data =
    Some (Exit 1,
      \<lparr>logged =
         [LogEntry INFO ''importing blocks'' [] [],
          LogEntry FATAL ''unlinked chains'' []
            [(''newest_known_block'', I 7), (''first_unknown_block'', I 3)]],
       chain = demo_chain\<lparr>knows_block := (\<lambda>h. h = [9])\<rparr>\<rparr>)"
proof -
  let ?b = "\<lparr>header = \<lparr>hash = [1], prevhash = [2], number = 3\<rparr>,
          transaction_list = RList [], uncles = RList []\<rparr>"
  let ?c = "demo_chain\<lparr>knows_block := (\<lambda>h. h = [9])\<rparr>"
  have "block_queue ?c = []" by (simp add: demo_chain_def)
  moreover have "0 < length demo_data" by (simp add: demo_data_def)
  moreover have "consume_item demo_env demo_data 0 = Inr (hd demo_records, 7)"
    by (simp add: demo_env_def demo_data_def demo_consume_item_def demo_records_def)
  moreover have "is_block_shape (hd demo_records)" by (simp add: demo_records_def)
  moreover have "TransientBlock demo_env (hd demo_records) = Inr ?b"
    by (simp add: demo_records_def demo_env_def be_int_def)
  moreover have "\<not> knows_block ?c (hash (header ?b))" by simp
  moreover have "\<not> knows_block ?c (prevhash (header ?b))" by simp
  ultimately have "import_blocks demo_env ?c demo_data =
    Some (Exit 1,
      \<lparr>logged =
         [LogEntry INFO ''importing blocks'' [] [],
          LogEntry FATAL ''unlinked chains'' []
            [(''newest_known_block'', I (head_number ?c)),
             (''first_unknown_block'', I (number (header ?b)))]],
       chain = ?c\<rparr>)"
    by (rule import_unlinked_chain)
  then show ?thesis by (simp add: demo_chain_def)
qed

text \<open>
  Claim C3. When the first record decodes to something that is not a list of three
  elements, the import leaves through \<^verbatim>\<open>sys.exit(1)\<close> after the fatal
  \<^verbatim>\<open>first block invalid\<close>, and the queue stays empty.
\<close>

theorem import_first_record_malformed:
  assumes "block_queue c = []"
    and "0 < length data" and "consume_item env data 0 = Inr (r, j)"
    and "\<not> is_block_shape r"
  shows "import_blocks env c data =
    Some (Exit 1,
      \<lparr>logged =
         [LogEntry INFO ''importing blocks'' [] [],
          LogEntry WARNING ''not a valid block'' [] [(''byte_index'', I 0)],
          LogEntry FATAL ''first block invalid'' [] []],
       chain = c\<rparr>)"
proof -
  from assms(4) have "adapt env r = Inl DeserializationError" by (simp add: adapt_def)
  from blocks_next_invalid [OF assms(2,3) this] assms(1) show ?thesis
    by (simp add: import_blocks_def emit_def)
qed

theorem import_first_record_malformed_witness:
  "import_blocks demo_env demo_chain two_list_first =
    Some (Exit 1,
      \<lparr>logged =
         [LogEntry INFO ''importing blocks'' [] [],
          LogEntry WARNING ''not a valid block'' [] [(''byte_index'', I 0)],
          LogEntry FATAL ''first block invalid'' [] []],
       chain = demo_chain\<rparr>) \<and> block_queue demo_chain = []"
proof -
  have q: "block_queue demo_chain = []" by (simp add: demo_chain_def)
  have "0 < length two_list_first" by (simp add: two_list_first_def)
  moreover have "consume_item demo_env two_list_first 0 = Inr (RList [RStr [1], RStr [2]], 3)"
    by (simp add: demo_env_def two_list_first_def demo_consume_item_def)
  moreover have "\<not> is_block_shape (RList [RStr [1], RStr [2]])" by simp
  ultimately show ?thesis using import_first_record_malformed [OF q] q by blast
qed

text \<open>
  Claim C9. On the empty buffer \<^verbatim>\<open>next(blocks())\<close> finds the generator exhausted: the
  \<^verbatim>\<open>StopIteration\<close> escapes, before any linkage check and before any block is enqueued,
  and \<^verbatim>\<open>import finished\<close> with its head number is never logged.
\<close>

theorem import_empty_buffer:
  assumes "block_queue c = []"
  shows "import_blocks env c [] =
    Some (Raised StopIteration, \<lparr>logged = [LogEntry INFO ''importing blocks'' [] []], chain = c\<rparr>)"
  using assms by (simp add: import_blocks_def blocks_next_def emit_def)

theorem import_empty_buffer_witness:
  "import_blocks demo_env demo_chain [] =
    Some (Raised StopIteration,
      \<lparr>logged = [LogEntry INFO ''importing blocks'' [] []], chain = demo_chain\<rparr>)
   \<and> block_queue demo_chain = []"
proof -
  have q: "block_queue demo_chain = []" by (simp add: demo_chain_def)
  from import_empty_buffer [OF q] q show ?thesis by simp
qed

text \<open>
  Claim C4, amended. The chain service starts with an empty queue, as line 312 asserts.
  In the buffer the records \<open>rs\<close> decode one after the other from offset 0, and at the
  offset \<open>k\<close> that follows them the decoder raises the exception \<open>e\<close>; \<open>k = 0\<close> and \<open>rs\<close> is
  empty when the failure is in the first record. Then the import never completes. It
  leaves through \<^verbatim>\<open>sys.exit(1)\<close> with the fatal \<^verbatim>\<open>invalid RLP encoding\<close> and \<open>byte_index = k\<close>
  as the last log record exactly when \<open>e\<close> is \<^verbatim>\<open>DecodingError\<close> and the run comes to decode at
  \<open>k\<close> (\<open>reaches\<close>): the failing record is the first one, or the first record has been made
  a block that is linked to the chain and no record before \<open>k\<close> has made the constructor
  raise something else than \<^verbatim>\<open>IndexError\<close> and \<^verbatim>\<open>DeserializationError\<close>. In every other case
  no log record reports the offset \<open>k\<close>. The status is 1 whenever \<open>e\<close> is \<^verbatim>\<open>DecodingError\<close> and
  the constructor raises nothing else than these two on the records before \<open>k\<close>.
\<close>

theorem import_decode_error:
  assumes q: "block_queue c = []"
    and walk: "records env data 0 rs k"
    and here: "k < length data" and fails: "consume_item env data k = Inl e"
  shows "\<exists>out st. import_blocks env c data = Some (out, st) \<and> out \<noteq> Returned
     \<and> (list_all (caught env) rs \<and> e = DecodingError \<longrightarrow> out = Exit 1)
     \<and> (reaches env c rs \<and> e = DecodingError \<longrightarrow>
           out = Exit 1 \<and> logged st \<noteq> [] \<and> last (logged st) = decode_fatal k)
     \<and> (\<not> (reaches env c rs \<and> e = DecodingError) \<longrightarrow> decode_fatal k \<notin> set (logged st))"
proof (cases rs)
  case Nil
  with walk have k: "k = 0" by (auto elim: records.cases)
  show ?thesis
  proof (cases "e = DecodingError")
    case True
    with here fails q k have "import_blocks env c data =
        Some (Exit 1, \<lparr>logged = [LogEntry INFO ''importing blocks'' [] [], decode_fatal 0],
                       chain = c\<rparr>)"
      by (simp add: import_blocks_def blocks_next_decode_error emit_def decode_fatal_def)
    with Nil k True show ?thesis by (simp add: reaches_def)
  next
    case False
    with here fails q k have "import_blocks env c data =
        Some (Raised e, \<lparr>logged = [LogEntry INFO ''importing blocks'' [] []], chain = c\<rparr>)"
      by (simp add: import_blocks_def blocks_next_decoder_raises emit_def)
    with False show ?thesis by (simp add: decode_fatal_def)
  qed
next
  case (Cons r rs')
  let ?st0 = "\<lparr>logged = [LogEntry INFO ''importing blocks'' [] []], chain = c\<rparr>"
  from walk Cons obtain j where ne: "0 < length data" and dec: "consume_item env data 0 = Inr (r, j)"
    by (auto elim: records.cases)
  show ?thesis
  proof (cases "adapt env r")
    case (Inl x)
    then have nr: "\<not> reaches env c rs" by (simp add: reaches_def Cons)
    show ?thesis
    proof (cases "x = IndexError \<or> x = DeserializationError")
      case True
      from import_blocks_first_skipped [OF q ne dec Inl True] nr show ?thesis
        by (simp add: decode_fatal_def)
    next
      case False
      with Inl have "\<not> list_all (caught env) rs" by (simp add: Cons caught_def)
      with import_blocks_first_escapes [OF q ne dec Inl False] nr show ?thesis
        by (simp add: decode_fatal_def)
    qed
  next
    case (Inr b)
    then have cr: "caught env r" by (simp add: caught_def)
    show ?thesis
    proof (cases "knows_block c (hash (header b)) \<or> knows_block c (prevhash (header b))")
      case False
      with Inr have nr: "\<not> reaches env c rs" by (simp add: reaches_def Cons)
      from import_blocks_first_unlinked [OF q ne dec Inr False] nr show ?thesis
        by (simp add: decode_fatal_def)
    next
      case True
      with Inr cr have reach: "reaches env c rs = list_all (caught env) rs"
        by (simp add: reaches_def Cons)
      from import_loop_scanned [OF walk, of ?st0 0] obtain st' where
        fat: "filter is_fatal (logged st') = filter is_fatal (logged ?st0)"
        and run: "if list_all (caught env) rs
           then import_loop env data 0 0 ?st0 = import_loop env data k (0 + length rs) st'
           else \<exists>e. import_loop env data 0 0 ?st0 = Some (Raised e, st') \<and>
                  adapt env (hd (dropWhile (caught env) rs)) = Inl e"
        by blast
      from fat have clean: "decode_fatal k \<notin> set (logged st')"
        by (intro decode_fatal_not_fatal_free) simp
      show ?thesis
      proof (cases "list_all (caught env) rs")
        case all: True
        show ?thesis
        proof (cases "e = DecodingError")
          case dec_err: True
          let ?fin = "st'\<lparr>logged := logged st' @
             [LogEntry FATAL ''invalid RLP encoding'' [] [(''byte_index'', I (int k))]]\<rparr>"
          from all run dec_err have "import_loop env data 0 0 ?st0 = Some (Exit 1, ?fin)"
            using import_loop_decode_error [OF here, of env] fails by simp
          then have "import_blocks env c data = Some (Exit 1, ?fin)"
            by (simp add: import_blocks_scan [OF q ne dec Inr True])
          with all reach dec_err show ?thesis
            by (intro exI [of _ "Exit 1"] exI [of _ ?fin]) (simp add: decode_fatal_def)
        next
          case other: False
          from all run have "import_loop env data 0 0 ?st0 = Some (Raised e, st')"
            by (simp add: import_loop_decoder_raises [OF here fails other])
          then have "import_blocks env c data = Some (Raised e, st')"
            by (simp add: import_blocks_scan [OF q ne dec Inr True])
          with clean other show ?thesis
            by (intro exI [of _ "Raised e"] exI [of _ st']) simp
        qed
      next
        case none: False
        with run obtain x where "import_loop env data 0 0 ?st0 = Some (Raised x, st')" by auto
        then have "import_blocks env c data = Some (Raised x, st')"
          by (simp add: import_blocks_scan [OF q ne dec Inr True])
        with clean none reach show ?thesis
          by (intro exI [of _ "Raised x"] exI [of _ st']) simp
      qed
    qed
  qed
qed

text \<open>
  As the claim is written it covers every buffer with an undecodable record. In
  \<open>malformed_then_undecodable\<close> the first record is a list of two byte strings and
  decoding fails at offset 3. The run ends at the check of the first block, with status
  1: offset 3 is never decoded and no log record names it.
\<close>

theorem import_decode_error_unreported:
  "records demo_env malformed_then_undecodable 0 [RList [RStr [1], RStr [2]]] 3 \<and>
   3 < length malformed_then_undecodable \<and>
   consume_item demo_env malformed_then_undecodable 3 = Inl DecodingError \<and>
   import_blocks demo_env demo_chain malformed_then_undecodable =
     Some (Exit 1,
       \<lparr>logged =
          [LogEntry INFO ''importing blocks'' [] [],
           LogEntry WARNING ''not a valid block'' [] [(''byte_index'', I 0)],
           LogEntry FATAL ''first block invalid'' [] []],
        chain = demo_chain\<rparr>) \<and>
   LogEntry FATAL ''invalid RLP encoding'' [] [(''byte_index'', I 3)] \<notin>
     set (logged (snd (the (import_blocks demo_env demo_chain malformed_then_undecodable))))"
proof -
  have dec: "consume_item demo_env malformed_then_undecodable 0 = Inr (RList [RStr [1], RStr [2]], 3)"
    by (simp add: demo_env_def malformed_then_undecodable_def demo_consume_item_def)
  have ne: "0 < length malformed_then_undecodable" by (simp add: malformed_then_undecodable_def)
  have here: "3 < length malformed_then_undecodable" by (simp add: malformed_then_undecodable_def)
  have walk: "records demo_env malformed_then_undecodable 0 [RList [RStr [1], RStr [2]]] 3"
    by (rule records_Cons [OF ne dec]) (rule records_Nil)
  have fails: "consume_item demo_env malformed_then_undecodable 3 = Inl DecodingError"
    by (simp add: demo_env_def malformed_then_undecodable_def demo_consume_item_def)
  have q: "block_queue demo_chain = []" by (simp add: demo_chain_def)
  have ad: "adapt demo_env (RList [RStr [1], RStr [2]]) = Inl DeserializationError"
    by (simp add: adapt_def)
  have run: "import_blocks demo_env demo_chain malformed_then_undecodable =
     Some (Exit 1,
       \<lparr>logged =
          [LogEntry INFO ''importing blocks'' [] [],
           LogEntry WARNING ''not a valid block'' [] [(''byte_index'', I 0)],
           LogEntry FATAL ''first block invalid'' [] []],
        chain = demo_chain\<rparr>)"
    by (rule import_blocks_first_skipped [OF q ne dec ad]) simp
  show ?thesis by (simp add: walk fails run here)
qed

lemma undecodable_walk:
  "records demo_env undecodable_third 0 [hd demo_records, RStr [5]] 8"
  apply (rule records_Cons [where j = 7])
    apply (simp add: undecodable_third_def)
   apply (simp add: demo_env_def undecodable_third_def demo_consume_item_def demo_records_def)
  apply (rule records_Cons [where j = 8])
    apply (simp add: undecodable_third_def)
   apply (simp add: demo_env_def undecodable_third_def demo_consume_item_def)
  apply (rule records_Nil)
  done

theorem import_decode_error_witness:
  "records demo_env undecodable_third 0 [hd demo_records, RStr [5]] 8 \<and>
   consume_item demo_env undecodable_third 8 = Inl DecodingError \<and>
   reaches demo_env demo_chain [hd demo_records, RStr [5]] \<and>
   (\<exists>st. import_blocks demo_env demo_chain undecodable_third = Some (Exit 1, st) \<and>
      last (logged st) = LogEntry FATAL ''invalid RLP encoding'' [] [(''byte_index'', I 8)])"
proof -
  let ?rs = "[hd demo_records, RStr [5]]"
  have q: "block_queue demo_chain = []" by (simp add: demo_chain_def)
  have here: "8 < length undecodable_third" by (simp add: undecodable_third_def)
  have fails: "consume_item demo_env undecodable_third 8 = Inl DecodingError"
    by (simp add: demo_env_def undecodable_third_def demo_consume_item_def)
  have reached: "reaches demo_env demo_chain ?rs"
    by (simp add: reaches_def caught_def adapt_def demo_records_def demo_env_def demo_chain_def)
  from import_decode_error [OF q undecodable_walk here fails] reached
  obtain st where "import_blocks demo_env demo_chain undecodable_third = Some (Exit 1, st)"
    and "last (logged st) = LogEntry FATAL ''invalid RLP encoding'' [] [(''byte_index'', I 8)]"
    by (auto simp: decode_fatal_def)
  with undecodable_walk fails reached show ?thesis by (intro conjI exI [of _ st])
qed

section \<open>Properties of the export\<close>

lemma export_loop_all_found:
  "\<forall>n\<in>set ns. \<exists>bs. fetch env n = Inr bs \<Longrightarrow>
   export_loop env from' to ns st =
     (Returned, st\<lparr>logged := logged st @ concat (map (export_entries from' to) ns),
                   written := written st @ map (raw env) ns\<rparr>)"
proof (induction ns arbitrary: st)
  case Nil
  then show ?case by simp
next
  case (Cons n ns)
  from Cons.prems obtain bs where bs: "fetch env n = Inr bs" by auto
  then obtain h where h: "get_block_by_number env n = Inr h" "db_get env h = Inr bs"
    by (auto simp: fetch_def split: sum.splits)
  from Cons.prems have rest: "\<forall>n\<in>set ns. \<exists>bs. fetch env n = Inr bs" by simp
  show ?case
    by (simp add: h Cons.IH [OF rest] Let_def emit_def export_entries_def raw_def bs
        progress_report_def)
qed

lemma progress_reports_of_entries:
  "filter is_progress_report (concat (map (export_entries from' to) ns)) =
   map (\<lambda>n. progress_report n (min (n + 50000) to)) (filter (\<lambda>n. (n - from') mod 50000 = 0) ns)"
  by (induction ns) (simp_all add: export_entries_def is_progress_report_def progress_report_def)

lemma no_multiple_between:
  fixes n :: int
  assumes "50000 * q < n" "n < 50000 * (q + 1)"
  shows "n mod 50000 \<noteq> 0"
proof
  assume "n mod 50000 = 0"
  then obtain r where "n = 50000 * r" by (auto simp: mod_eq_0_iff_dvd)
  with assms show False by simp
qed

lemma multiples_upto_100000:
  "filter (\<lambda>n. (n - 0) mod 50000 = 0) [0..100000] = [0, 50000, 100000::int]"
proof -
  have "[0..100000::int] = [0..49999] @ 50000 # [50001..100000]"
    using upto_split3 [of 0 50000 100000] by (simp del: upto_rec_numeral)
  also have "[50001..100000::int] = [50001..99999] @ [100000]"
    using upto_rec2 [of 50001 100000] by (simp del: upto_rec_numeral)
  also have "[0..49999::int] = 0 # [1..49999]"
    using upto_rec1 [of 0 49999] by (simp del: upto_rec_numeral)
  finally have split: "[0..100000::int] = (0 # [1..49999]) @ 50000 # [50001..99999] @ [100000]" .
  have a: "filter (\<lambda>n. n mod 50000 = 0) [1..49999::int] = []"
    using no_multiple_between [of 0] by (auto simp: filter_empty_conv simp del: upto_rec_numeral)
  have b: "filter (\<lambda>n. n mod 50000 = 0) [50001..99999::int] = []"
    using no_multiple_between [of 1] by (auto simp: filter_empty_conv simp del: upto_rec_numeral)
  show ?thesis unfolding split by (simp add: a b del: upto_rec_numeral)
qed

lemma all_found_raw:
  "\<forall>n\<in>set ns. \<exists>bs. fetch env n = Inr bs \<Longrightarrow>
   list_all2 (\<lambda>n bs. fetch env n = Inr bs) ns (map (raw env) ns)"
  by (induction ns) (auto simp: raw_def)

lemma export_blocks_range:
  assumes "0 \<le> from'" "from' \<le> to" "to \<le> chain_head_number env"
    and "\<forall>n\<in>set [from'..to]. \<exists>bs. fetch env n = Inr bs"
  shows "export_blocks env (Some from') (Some to) =
    (Returned,
      \<lparr>logged = LogEntry INFO ''Starting export'' [] [] #
                 concat (map (export_entries from' to) [from'..to]) @
                 [LogEntry INFO ''Export complete'' [] []],
       written = map (raw env) [from'..to]\<rparr>)"
  using assms(1-3)
  by (simp add: export_blocks_def Let_def export_loop_all_found [OF assms(4)] emit_def)

text \<open>
  Claim C6. On a chain whose head has number 100000 and whose blocks 0 to 100000 can all
  be read, \<^verbatim>\<open>export(from=0, to=100000)\<close> returns, has written 100001 byte strings, the
  \<open>n\<close>-th of them the stored bytes of block \<open>n\<close>, and has logged exactly three progress
  reports: at 0, at 50000 and at 100000.
\<close>

theorem export_full_chain:
  assumes head: "chain_head_number env = 100000"
    and found: "\<forall>n\<in>{0..100000}. \<exists>bs. fetch env n = Inr bs"
  shows "\<exists>st. export_blocks env (Some 0) (Some 100000) = (Returned, st)
     \<and> length (written st) = 100001
     \<and> list_all2 (\<lambda>n bs. fetch env n = Inr bs) [0..100000] (written st)
     \<and> filter is_progress_report (logged st) =
         [progress_report 0 50000, progress_report 50000 100000, progress_report 100000 100000]"
proof -
  define ns :: "int list" where "ns = [0..100000]"
  let ?fin = "\<lparr>logged = LogEntry INFO ''Starting export'' [] [] #
                 concat (map (export_entries 0 100000) ns) @
                 [LogEntry INFO ''Export complete'' [] []],
       written = map (raw env) ns\<rparr>"
  from found have f: "\<forall>n\<in>set ns. \<exists>bs. fetch env n = Inr bs"
    unfolding ns_def by (simp del: upto_rec_numeral)
  have res: "export_blocks env (Some 0) (Some 100000) = (Returned, ?fin)"
    unfolding ns_def
    by (rule export_blocks_range) (use f head in \<open>simp_all add: ns_def del: upto_rec_numeral\<close>)
  have len: "length (written ?fin) = 100001"
    by (simp add: ns_def del: upto_rec_numeral)
  have all2: "list_all2 (\<lambda>n bs. fetch env n = Inr bs) ns (written ?fin)"
    using all_found_raw [OF f] by simp
  have "filter is_progress_report (logged ?fin) =
      map (\<lambda>n. progress_report n (min (n + 50000) 100000))
        (filter (\<lambda>n. (n - 0) mod 50000 = 0) ns)"
    by (simp add: is_progress_report_def progress_reports_of_entries)
  then have lg: "filter is_progress_report (logged ?fin) =
         [progress_report 0 50000, progress_report 50000 100000, progress_report 100000 100000]"
    unfolding ns_def multiples_upto_100000 by simp
  show ?thesis
    apply (rule exI [of _ ?fin])
    using res len all2 lg unfolding ns_def by - (intro conjI, assumption+)
qed

text \<open>
  Claim C5. Whatever the index and the database hold: when \<open>from < 0\<close>, or \<open>to < from\<close>,
  or \<open>to\<close> is beyond the head, the export leaves through \<^verbatim>\<open>sys.exit(1)\<close>, has written
  nothing, and has logged one fatal record, whose message is that of the first bound
  violated in the order negative, \<open>to < from\<close>, beyond the head; the three messages
  differ from one another.
\<close>

theorem export_rejects_bad_bounds:
  assumes "from' < 0 \<or> to < from' \<or> to > chain_head_number env"
  shows "export_blocks env (Some from') (Some to) =
      (Exit 1,
        \<lparr>logged =
           [if from' < 0 then LogEntry FATAL negative_msg [] []
            else if to < from' then LogEntry FATAL order_msg [] []
            else LogEntry FATAL unknown_msg [I (chain_head_number env)] []],
         written = []\<rparr>)
    \<and> negative_msg \<noteq> order_msg \<and> negative_msg \<noteq> unknown_msg \<and> order_msg \<noteq> unknown_msg"
proof -
  have "negative_msg \<noteq> order_msg" "negative_msg \<noteq> unknown_msg" "order_msg \<noteq> unknown_msg"
    by (simp_all add: negative_msg_def order_msg_def unknown_msg_def)
  moreover from assms have "export_blocks env (Some from') (Some to) =
      (Exit 1,
        \<lparr>logged =
           [if from' < 0 then LogEntry FATAL negative_msg [] []
            else if to < from' then LogEntry FATAL order_msg [] []
            else LogEntry FATAL unknown_msg [I (chain_head_number env)] []],
         written = []\<rparr>)"
    by (auto simp: export_blocks_def Let_def emit_def)
  ultimately show ?thesis by simp
qed

theorem export_rejects_bad_bounds_witness:
  "(\<forall>env. export_blocks env (Some 5) (Some 3) =
      (Exit 1, \<lparr>logged = [LogEntry FATAL order_msg [] []], written = []\<rparr>)) \<and>
   (\<forall>env. export_blocks env (Some (- 1)) (Some 10) =
      (Exit 1, \<lparr>logged = [LogEntry FATAL negative_msg [] []], written = []\<rparr>)) \<and>
   export_blocks demo_export_env (Some 0) (Some 100001) =
      (Exit 1, \<lparr>logged = [LogEntry FATAL unknown_msg [I 100000] []], written = []\<rparr>)"
proof (intro conjI allI)
  fix env :: export_env
  show "export_blocks env (Some 5) (Some 3) =
      (Exit 1, \<lparr>logged = [LogEntry FATAL order_msg [] []], written = []\<rparr>)"
    using export_rejects_bad_bounds [of 5 3 env] by simp
  show "export_blocks env (Some (- 1)) (Some 10) =
      (Exit 1, \<lparr>logged = [LogEntry FATAL negative_msg [] []], written = []\<rparr>)"
    using export_rejects_bad_bounds [of "- 1" 10 env] by simp
next
  show "export_blocks demo_export_env (Some 0) (Some 100001) =
      (Exit 1, \<lparr>logged = [LogEntry FATAL unknown_msg [I 100000] []], written = []\<rparr>)"
    using export_rejects_bad_bounds [of 0 100001 demo_export_env]
    by (simp add: demo_export_env_def)
qed

theorem export_full_chain_witness:
  "chain_head_number demo_export_env = 100000 \<and>
   fetch demo_export_env 50000 = Inr [0xC0, 0x50] \<and>
   (\<exists>st. export_blocks demo_export_env (Some 0) (Some 100000) = (Returned, st)
     \<and> length (written st) = 100001
     \<and> filter is_progress_report (logged st) =
         [progress_report 0 50000, progress_report 50000 100000, progress_report 100000 100000])"
proof -
  have head: "chain_head_number demo_export_env = 100000" by (simp add: demo_export_env_def)
  have found: "\<forall>n\<in>{0..100000}. \<exists>bs. fetch demo_export_env n = Inr bs"
    by (simp add: fetch_def demo_export_env_def)
  have ex: "fetch demo_export_env 50000 = Inr [0xC0, 0x50]"
    by (simp add: fetch_def demo_export_env_def)
  from export_full_chain [OF head found] obtain st where
    "export_blocks demo_export_env (Some 0) (Some 100000) = (Returned, st)"
    "length (written st) = 100001"
    "filter is_progress_report (logged st) =
         [progress_report 0 50000, progress_report 50000 100000, progress_report 100000 100000]"
    by blast
  with head ex show ?thesis by - (intro conjI exI [of _ st], assumption+)
qed

section \<open>Properties of unlocking\<close>

lemma resolve_unknown:
  "\<exists>x\<in>set ids. find_account x = None \<Longrightarrow>
   \<exists>x. resolve find_account ids accs = Inl x \<and> x \<in> set ids \<and> find_account x = None"
  by (induction ids arbitrary: accs) (auto split: option.splits)

lemma resolve_all:
  "map find_account ids = map Some as \<Longrightarrow> resolve find_account ids accs = Inr (accs @ as)"
  by (induction ids arbitrary: accs as) auto

text \<open>
  Claim C10. All identifiers are resolved before anything is unlocked: when some
  identifier of the list is unknown to the registry, whatever its position, the run
  leaves through \<^verbatim>\<open>sys.exit(1)\<close> and the state differs from the initial one only by the
  fatal record that names an unknown identifier. No account has changed, no unlock has
  been attempted, nothing has been prompted.
\<close>

theorem unlock_unknown_identifier:
  assumes "\<exists>x\<in>set account_ids. find_account x = None"
  shows "\<exists>x. x \<in> set account_ids \<and> find_account x = None \<and>
     unlock_accounts account_ids find_account max_attempts pw_opt st =
       (Exit 1,
         st\<lparr>logged := logged st @
           [LogEntry FATAL ''could not find account'' [] [(''identifier'', S x)]]\<rparr>)"
proof -
  from resolve_unknown [OF assms, of "[]"] obtain x where
    "resolve find_account account_ids [] = Inl x" "x \<in> set account_ids" "find_account x = None"
    by blast
  then show ?thesis by (intro exI [of _ x]) (simp add: unlock_accounts_def emit_def)
qed

lemma opens_unlocked_by [simp]: "opens pw (unlocked_by pw as accs) a = opens pw accs a"
  by (simp add: opens_def unlocked_by_def)

lemma opens_upd [simp]: "opens pw (accs(b := (accs b)\<lparr>locked := False\<rparr>)) a = opens pw accs a"
  by (simp add: opens_def)

lemma unlocked_by_Nil [simp]: "unlocked_by pw [] accs = accs"
  by (simp add: unlocked_by_def)

lemma unlocked_by_Cons:
  "unlocked_by pw (a # as) accs =
    (if opens pw accs a then unlocked_by pw as (accs(a := (accs a)\<lparr>locked := False\<rparr>))
     else unlocked_by pw as accs)"
  by (rule ext) (auto simp: unlocked_by_def opens_def)

lemma unlock_with_password_run:
  "unlock_with_password pw xs st =
    (Returned,
      st\<lparr>logged := logged st @
             map (\<lambda>(identifier, a). password_failure identifier)
               (filter (\<lambda>(identifier, a). \<not> opens pw (accounts st) a) xs),
         accounts := unlocked_by pw (map snd xs) (accounts st),
         attempts := attempts st @ map (\<lambda>(identifier, a). (a, pw)) xs\<rparr>)"
proof (induction xs arbitrary: st)
  case Nil
  then show ?case by simp
next
  case (Cons x xs)
  obtain i a where x: "x = (i, a)" by (cases x)
  let ?R = "\<lambda>st xs.
      st\<lparr>logged := logged st @
             map (\<lambda>(identifier, a). password_failure identifier)
               (filter (\<lambda>(identifier, a). \<not> opens pw (accounts st) a) xs),
         accounts := unlocked_by pw (map snd xs) (accounts st),
         attempts := attempts st @ map (\<lambda>(identifier, a). (a, pw)) xs\<rparr>"
  show ?case
  proof (cases "opens pw (accounts st) a")
    case True
    let ?st1 = "st\<lparr>attempts := attempts st @ [(a, pw)],
                   accounts := (accounts st)(a := (accounts st a)\<lparr>locked := False\<rparr>)\<rparr>"
    from True have "account_unlock a pw st = (None, ?st1)"
      by (simp add: account_unlock_def unlock_def opens_def)
    then have "unlock_with_password pw (x # xs) st = unlock_with_password pw xs ?st1"
      by (simp add: x)
    also have "\<dots> = (Returned, ?R ?st1 xs)" by (rule Cons.IH)
    also have "?R ?st1 xs = ?R st (x # xs)"
      using True by (simp add: x unlocked_by_Cons)
    finally show ?thesis .
  next
    case False
    let ?st1 = "emit (password_failure i) (st\<lparr>attempts := attempts st @ [(a, pw)]\<rparr>)"
    from False have "account_unlock a pw st = (Some ValueError, st\<lparr>attempts := attempts st @ [(a, pw)]\<rparr>)"
      by (simp add: account_unlock_def unlock_def opens_def)
    then have "unlock_with_password pw (x # xs) st = unlock_with_password pw xs ?st1"
      by (simp add: x password_failure_def)
    also have "\<dots> = (Returned, ?R ?st1 xs)" by (rule Cons.IH)
    also have "?R ?st1 xs = ?R st (x # xs)"
      using False by (simp add: x unlocked_by_Cons emit_def)
    finally show ?thesis .
  qed
qed

text \<open>
  Claim C8. With a password given and every identifier resolved, \<^verbatim>\<open>unlock_accounts\<close>
  returns: it has called \<^verbatim>\<open>unlock\<close> with that password on every account, in order, has
  logged one record per account that the password does not open, naming it, and has
  gone on to the next account each time. The accounts the password opens are unlocked.
\<close>

theorem shared_password_failures_not_fatal:
  assumes "map find_account account_ids = map Some accs"
  shows "unlock_accounts account_ids find_account max_attempts (Some pw) st =
    (Returned,
      st\<lparr>logged := logged st @
             map (\<lambda>(identifier, a). password_failure identifier)
               (filter (\<lambda>(identifier, a). \<not> opens pw (accounts st) a) (zip account_ids accs)),
         accounts := unlocked_by pw accs (accounts st),
         attempts := attempts st @ map (\<lambda>a. (a, pw)) accs\<rparr>)"
proof -
  from assms have len: "length account_ids = length accs"
    by (metis length_map)
  have "map snd (zip account_ids accs) = accs" using len by simp
  moreover have "map (\<lambda>(identifier, a). (a, pw)) (zip account_ids accs) = map (\<lambda>a. (a, pw)) accs"
    using len by (induction account_ids accs rule: list_induct2) simp_all
  ultimately show ?thesis
    using resolve_all [OF assms, of "[]"]
    by (simp add: unlock_accounts_def unlock_with_password_run)
qed

lemma unlock_loop_opens:
  assumes "opens pw (accounts st) a"
  shows "unlock_loop max_attempts i a attempt pw st =
    (Returned, st\<lparr>attempts := attempts st @ [(a, pw)],
                  accounts := (accounts st)(a := (accounts st a)\<lparr>locked := False\<rparr>)\<rparr>)"
  using assms
  by (subst unlock_loop.simps) (simp add: account_unlock_def unlock_def opens_def)

lemma unlock_loop_again:
  assumes "\<not> opens pw (accounts st) a" and "\<not> over_budget max_attempts (attempt + 1)"
    and "inputs st = pw' # rest"
  shows "unlock_loop max_attempts i a attempt pw st =
    unlock_loop max_attempts i a (attempt + 1) pw'
      (st\<lparr>attempts := attempts st @ [(a, pw)],
          prompts := prompts st @ [further_prompt max_attempts (attempt + 1)],
          inputs := rest\<rparr>)"
  using assms
  by (subst unlock_loop.simps)
     (simp add: account_unlock_def unlock_def opens_def click_prompt_def further_prompt_def)

lemma unlock_loop_too_many:
  assumes "\<not> opens pw (accounts st) a" and "over_budget max_attempts (attempt + 1)"
  shows "unlock_loop max_attempts i a attempt pw st =
    (Exit 1,
      st\<lparr>logged := logged st @
             [LogEntry FATAL ''Too many unlock attempts'' []
                [(''attempts'', I (attempt + 1)), (''account_id'', S i)]],
         attempts := attempts st @ [(a, pw)]\<rparr>)"
  using assms
  by (subst unlock_loop.simps) (simp add: account_unlock_def unlock_def opens_def emit_def)

lemma unlock_interactive_next:
  assumes "click_prompt (first_prompt m i) st = (Inr pw, st1)"
    and "unlock_loop m i a 1 pw st1 = (Returned, st2)" and "\<not> locked (accounts st2 a)"
  shows "unlock_interactive m ((i, a) # xs) st = unlock_interactive m xs st2"
  using assms by (simp add: first_prompt_def)

lemma unlock_interactive_exit:
  assumes "click_prompt (first_prompt m i) st = (Inr pw, st1)"
    and "unlock_loop m i a 1 pw st1 = (Exit code, st2)"
  shows "unlock_interactive m ((i, a) # xs) st = (Exit code, st2)"
  using assms by (simp add: first_prompt_def)

text \<open>
  Claim C7. No password given, \<^verbatim>\<open>max_attempts = 3\<close>, the list starts with two different
  accounts A and B and every identifier resolves. The user types a wrong password for
  A, then the right one, then three wrong ones for B. Then A is unlocked, B has been
  prompted for three times and tried three times, the run leaves through
  \<^verbatim>\<open>sys.exit(1)\<close> right after B's third failure, and no account after B is prompted for or
  tried: what the user would have typed next is still unread.
\<close>

theorem interactive_unlock_scenario:
  assumes ids: "account_ids = idA # idB # others"
    and found: "map find_account account_ids = map Some (a # b # accs)"
    and distinct: "a \<noteq> b"
    and typed: "inputs st = w # pA # x1 # x2 # x3 # rest"
    and A: "\<not> opens w (accounts st) a" "opens pA (accounts st) a"
    and B: "\<not> opens x1 (accounts st) b" "\<not> opens x2 (accounts st) b" "\<not> opens x3 (accounts st) b"
  shows "unlock_accounts account_ids find_account (Some 3) None st =
    (Exit 1,
      st\<lparr>logged := logged st @
             [LogEntry FATAL ''Too many unlock attempts'' []
                [(''attempts'', I 4), (''account_id'', S idB)]],
         accounts := (accounts st)(a := (accounts st a)\<lparr>locked := False\<rparr>),
         attempts := attempts st @ [(a, w), (a, pA), (b, x1), (b, x2), (b, x3)],
         prompts := prompts st @
           [first_prompt (Some 3) idA, further_prompt (Some 3) 2,
            first_prompt (Some 3) idB, further_prompt (Some 3) 2, further_prompt (Some 3) 3],
         inputs := rest\<rparr>)"
proof -
  let ?m = "Some (3::int)"
  from found ids have res: "resolve find_account account_ids [] = Inr (a # b # accs)"
    using resolve_all [of find_account account_ids "a # b # accs" "[]"] by simp
  from found ids obtain zs where zip: "zip account_ids (a # b # accs) = (idA, a) # (idB, b) # zs"
    by simp
  \<comment> \<open>account A: the first password fails, the second opens it\<close>
  let ?s1 = "st\<lparr>prompts := prompts st @ [first_prompt ?m idA], inputs := pA # x1 # x2 # x3 # rest\<rparr>"
  let ?s2 = "?s1\<lparr>attempts := attempts ?s1 @ [(a, w)],
          prompts := prompts ?s1 @ [further_prompt ?m (1 + 1)],
          inputs := x1 # x2 # x3 # rest\<rparr>"
  let ?s3 = "?s2\<lparr>attempts := attempts ?s2 @ [(a, pA)],
                  accounts := (accounts ?s2)(a := (accounts ?s2 a)\<lparr>locked := False\<rparr>)\<rparr>"
  have p1: "click_prompt (first_prompt ?m idA) st = (Inr w, ?s1)"
    using typed by (simp add: click_prompt_def)
  have "unlock_loop ?m idA a 1 w ?s1 = unlock_loop ?m idA a (1 + 1) pA ?s2"
    by (rule unlock_loop_again) (use A in simp_all)
  also have "\<dots> = (Returned, ?s3)"
    by (rule unlock_loop_opens) (use A in simp)
  finally have loopA: "unlock_loop ?m idA a 1 w ?s1 = (Returned, ?s3)" .
  \<comment> \<open>account B: three passwords, all wrong\<close>
  let ?t1 = "?s3\<lparr>prompts := prompts ?s3 @ [first_prompt ?m idB], inputs := x2 # x3 # rest\<rparr>"
  let ?t2 = "?t1\<lparr>attempts := attempts ?t1 @ [(b, x1)],
          prompts := prompts ?t1 @ [further_prompt ?m (1 + 1)],
          inputs := x3 # rest\<rparr>"
  let ?t3 = "?t2\<lparr>attempts := attempts ?t2 @ [(b, x2)],
          prompts := prompts ?t2 @ [further_prompt ?m (1 + 1 + 1)],
          inputs := rest\<rparr>"
  let ?t4 = "?t3\<lparr>logged := logged ?t3 @
             [LogEntry FATAL ''Too many unlock attempts'' []
                [(''attempts'', I (1 + 1 + 1 + 1)), (''account_id'', S idB)]],
         attempts := attempts ?t3 @ [(b, x3)]\<rparr>"
  have p2: "click_prompt (first_prompt ?m idB) ?s3 = (Inr x1, ?t1)"
    by (simp add: click_prompt_def)
  have Bs: "\<not> opens x1 (accounts ?t1) b" "\<not> opens x2 (accounts ?t2) b" "\<not> opens x3 (accounts ?t3) b"
    using B distinct by (simp_all add: opens_def)
  have "unlock_loop ?m idB b 1 x1 ?t1 = unlock_loop ?m idB b (1 + 1) x2 ?t2"
    by (rule unlock_loop_again) (use Bs in simp_all)
  also have "\<dots> = unlock_loop ?m idB b (1 + 1 + 1) x3 ?t3"
    by (rule unlock_loop_again) (use Bs in simp_all)
  also have "\<dots> = (Exit 1, ?t4)"
    by (rule unlock_loop_too_many) (use Bs in simp_all)
  finally have loopB: "unlock_loop ?m idB b 1 x1 ?t1 = (Exit 1, ?t4)" .
  have "unlock_accounts account_ids find_account ?m None st =
      unlock_interactive ?m ((idA, a) # (idB, b) # zs) st"
    by (simp add: unlock_accounts_def res zip del: unlock_interactive.simps)
  also have "\<dots> = unlock_interactive ?m ((idB, b) # zs) ?s3"
    by (rule unlock_interactive_next [OF p1 loopA]) simp
  also have "\<dots> = (Exit 1, ?t4)"
    by (rule unlock_interactive_exit [OF p2 loopB])
  also have "?t4 = st\<lparr>logged := logged st @
             [LogEntry FATAL ''Too many unlock attempts'' []
                [(''attempts'', I 4), (''account_id'', S idB)]],
         accounts := (accounts st)(a := (accounts st a)\<lparr>locked := False\<rparr>),
         attempts := attempts st @ [(a, w), (a, pA), (b, x1), (b, x2), (b, x3)],
         prompts := prompts st @
           [first_prompt (Some 3) idA, further_prompt (Some 3) 2,
            first_prompt (Some 3) idB, further_prompt (Some 3) 2, further_prompt (Some 3) 3],
         inputs := rest\<rparr>"
    by simp
  finally show ?thesis .
qed

theorem unlock_unknown_identifier_witness:
  "demo_find ''zed'' = None \<and>
   unlock_accounts [''alice'', ''bob'', ''zed''] demo_find (Some 3) None
       (demo_unlock_state [''pa'', ''pb'']) =
     (Exit 1,
       (demo_unlock_state [''pa'', ''pb''])\<lparr>logged :=
          [LogEntry FATAL ''could not find account'' [] [(''identifier'', S ''zed'')]]\<rparr>)"
proof -
  have z: "demo_find ''zed'' = None" by (simp add: demo_find_def)
  then have "\<exists>x\<in>set [''alice'', ''bob'', ''zed'']. demo_find x = None" by simp
  from unlock_unknown_identifier [OF this, of "Some 3" None "demo_unlock_state [''pa'', ''pb'']"]
  obtain x where x: "x \<in> set [''alice'', ''bob'', ''zed'']" "demo_find x = None"
    and r: "unlock_accounts [''alice'', ''bob'', ''zed''] demo_find (Some 3) None
       (demo_unlock_state [''pa'', ''pb'']) =
     (Exit 1,
       (demo_unlock_state [''pa'', ''pb''])\<lparr>logged := logged (demo_unlock_state [''pa'', ''pb'']) @
          [LogEntry FATAL ''could not find account'' [] [(''identifier'', S x)]]\<rparr>)"
    by blast
  from x have "x = ''zed''" by (auto simp: demo_find_def)
  with r z show ?thesis by (simp add: demo_unlock_state_def)
qed

theorem shared_password_failures_not_fatal_witness:
  "(let r = unlock_accounts [''alice'', ''bob'', ''carol''] demo_find (Some 3) (Some ''pb'')
              (demo_unlock_state [])
    in fst r = Returned
      \<and> logged (snd r) = [password_failure ''alice'', password_failure ''carol'']
      \<and> attempts (snd r) = [(0, ''pb''), (1, ''pb''), (2, ''pb'')]
      \<and> map (\<lambda>a. locked (accounts (snd r) a)) [0, 1, 2] = [True, False, True])"
proof -
  have "map demo_find [''alice'', ''bob'', ''carol''] = map Some [0, 1, 2]"
    by (simp add: demo_find_def)
  from shared_password_failures_not_fatal [OF this, of "Some 3" "''pb''" "demo_unlock_state []"]
  show ?thesis
    by (simp add: demo_unlock_state_def demo_accounts_def opens_def unlocked_by_def)
qed

theorem interactive_unlock_scenario_witness:
  "(let r = unlock_accounts [''alice'', ''bob'', ''carol''] demo_find (Some 3) None
              (demo_unlock_state [''x'', ''pa'', ''1'', ''2'', ''3'', ''pc''])
    in fst r = Exit 1
      \<and> map (\<lambda>a. locked (accounts (snd r) a)) [0, 1, 2] = [False, True, True]
      \<and> attempts (snd r) = [(0, ''x''), (0, ''pa''), (1, ''1''), (1, ''2''), (1, ''3'')]
      \<and> length (prompts (snd r)) = 5
      \<and> inputs (snd r) = [''pc''])"
proof -
  let ?st = "demo_unlock_state [''x'', ''pa'', ''1'', ''2'', ''3'', ''pc'']"
  have "[''alice'', ''bob'', ''carol''] = ''alice'' # ''bob'' # [''carol'']" by simp
  moreover have "map demo_find [''alice'', ''bob'', ''carol''] = map Some (0 # 1 # [2])"
    by (simp add: demo_find_def)
  moreover have "(0::nat) \<noteq> 1" by simp
  moreover have "inputs ?st = ''x'' # ''pa'' # ''1'' # ''2'' # ''3'' # [''pc'']"
    by (simp add: demo_unlock_state_def)
  moreover have "\<not> opens ''x'' (accounts ?st) 0" "opens ''pa'' (accounts ?st) 0"
    "\<not> opens ''1'' (accounts ?st) 1" "\<not> opens ''2'' (accounts ?st) 1"
    "\<not> opens ''3'' (accounts ?st) 1"
    by (simp_all add: opens_def demo_unlock_state_def demo_accounts_def)
  ultimately have "unlock_accounts [''alice'', ''bob'', ''carol''] demo_find (Some 3) None ?st =
    (Exit 1,
      ?st\<lparr>logged := logged ?st @
             [LogEntry FATAL ''Too many unlock attempts'' []
                [(''attempts'', I 4), (''account_id'', S ''bob'')]],
         accounts := (accounts ?st)(0 := (accounts ?st 0)\<lparr>locked := False\<rparr>),
         attempts := attempts ?st @ [(0, ''x''), (0, ''pa''), (1, ''1''), (1, ''2''), (1, ''3'')],
         prompts := prompts ?st @
           [first_prompt (Some 3) ''alice'', further_prompt (Some 3) 2,
            first_prompt (Some 3) ''bob'', further_prompt (Some 3) 2, further_prompt (Some 3) 3],
         inputs := [''pc'']\<rparr>)"
    by (rule interactive_unlock_scenario)
  then show ?thesis
    by (simp add: demo_unlock_state_def demo_accounts_def)
qed

end
